theory Spec2Isabelle
  imports Main "HOL-Library.Char_ord" "HOL-Library.List_Lexorder"
begin

unbundle bit_operations_syntax

section \<open>Position codec\<close>

text \<open>
  Python integers are unbounded, so coordinates and packed values are \<^typ>\<open>int\<close>.
  \<^verbatim>\<open>x & 0x3FFF\<close> is \<open>x AND 16383\<close>, \<^verbatim>\<open>v << n\<close> is \<open>push_bit n v\<close> and
  \<^verbatim>\<open>v >> n\<close> is \<open>drop_bit n v\<close>.
\<close>

definition encode_position :: "int \<Rightarrow> int \<Rightarrow> int \<Rightarrow> int" where
  "encode_position x z dim =
     (let x = (if x < 0 then x + push_bit 14 1 else x);
          z = (if z < 0 then z + push_bit 14 1 else z);
          x = x AND 0x3FFF;
          z = z AND 0x3FFF;
          dim = dim AND 0xF
      in (push_bit 28 dim OR push_bit 14 z) OR x)"

text \<open>
  The class \<^verbatim>\<open>CDBPosition\<close> with its attributes \<^verbatim>\<open>x\<close>, \<^verbatim>\<open>z\<close> and \<^verbatim>\<open>dimension\<close>
  (prefixed here, since a record field is a global constant). The method
  \<^verbatim>\<open>to_signed\<close> mutates the object; the model returns the updated record.
\<close>

record CDBPosition =
  pos_x :: int
  pos_z :: int
  pos_dimension :: int

definition CDBPosition_init :: "int \<Rightarrow> CDBPosition" where
  "CDBPosition_init val =
     \<lparr>pos_x = val AND 0x3FFF,
      pos_z = drop_bit 14 val AND 0x3FFF,
      pos_dimension = drop_bit 28 val AND 0xF\<rparr>"

definition to_signed :: "CDBPosition \<Rightarrow> CDBPosition" where
  "to_signed self =
     (let signed_size = push_bit 13 1;
          unsigned_size = push_bit 14 1;
          self = (if pos_x self \<ge> signed_size
                  then self\<lparr>pos_x := pos_x self - unsigned_size\<rparr> else self);
          self = (if pos_z self \<ge> signed_size
                  then self\<lparr>pos_z := pos_z self - unsigned_size\<rparr> else self)
      in self)"

definition parse_position :: "CDBPosition \<Rightarrow> int \<times> int \<times> int" where
  "parse_position self =
     (let self = to_signed self in (pos_x self, pos_z self, pos_dimension self))"

section \<open>Errors, loops, byte buffers and struct packing\<close>

text \<open>
  Every exception the modelled code can raise is a value. The three \<^verbatim>\<open>ValueError\<close>s the
  program raises itself are told apart by their message; \<open>ValueError\<close> stands for every
  other one (a byte outside \<^verbatim>\<open>range(0, 256)\<close>, tuple unpacking of the wrong length,
  \<^verbatim>\<open>int()\<close> of unsuitable text).
\<close>

datatype error =
    InvalidNBT
  | SizeMismatch
  | BadFileHeader
  | ValueError
  | StructError
  | IndexError
  | KeyError
  | TypeError
  | AttributeError
  | OSError
  | FileNotFoundError
  | OverflowError
  | MemoryError

definition and_then :: "'e + 'a \<Rightarrow> ('a \<Rightarrow> 'e + 'b) \<Rightarrow> 'e + 'b" where
  "and_then m f = (case m of Inl e \<Rightarrow> Inl e | Inr a \<Rightarrow> f a)"

text \<open>A \<^verbatim>\<open>for\<close> loop over a list: the body updates the loop state or raises.\<close>

fun for_each :: "('a \<Rightarrow> 's \<Rightarrow> 'e + 's) \<Rightarrow> 'a list \<Rightarrow> 's \<Rightarrow> 'e + 's" where
  "for_each body [] s = Inr s"
| "for_each body (i # is) s =
     (case body i s of Inl e \<Rightarrow> Inl e | Inr s' \<Rightarrow> for_each body is s')"

definition py_range :: "int \<Rightarrow> int list" where
  "py_range n = map int [0..<nat n]"

text \<open>
  \<^verbatim>\<open>bytes\<close> and \<^verbatim>\<open>bytearray\<close> values are lists of integers; storing an integer outside
  \<^verbatim>\<open>range(0, 256)\<close> raises \<^verbatim>\<open>ValueError\<close>. Indices may be negative, as in Python.
\<close>

type_synonym bytes = "int list"

definition list_getitem :: "'a list \<Rightarrow> int \<Rightarrow> error + 'a" where
  "list_getitem xs i =
     (let n = int (length xs); j = (if i < 0 then i + n else i)
      in if 0 \<le> j \<and> j < n then Inr (xs ! nat j) else Inl IndexError)"

definition list_setitem :: "'a list \<Rightarrow> int \<Rightarrow> 'a \<Rightarrow> error + 'a list" where
  "list_setitem xs i v =
     (let n = int (length xs); j = (if i < 0 then i + n else i)
      in if 0 \<le> j \<and> j < n then Inr (xs[nat j := v]) else Inl IndexError)"

definition bytearray_append :: "bytes \<Rightarrow> int \<Rightarrow> error + bytes" where
  "bytearray_append raw v = (if 0 \<le> v \<and> v < 256 then Inr (raw @ [v]) else Inl ValueError)"

definition bytearray_setitem :: "bytes \<Rightarrow> int \<Rightarrow> int \<Rightarrow> error + bytes" where
  "bytearray_setitem b i v =
     (if 0 \<le> v \<and> v < 256 then list_setitem b i v else Inl ValueError)"

text \<open>
  The \<^verbatim>\<open>struct\<close> module, for the little-endian format characters the program uses:
  \<^verbatim>\<open>b\<close> (signed 8 bit), \<^verbatim>\<open>H\<close> (unsigned 16 bit), \<^verbatim>\<open>I\<close> (unsigned 32 bit) and \<^verbatim>\<open>i\<close>
  (signed 32 bit). Packing a value outside the range of its format raises
  \<^verbatim>\<open>struct.error\<close>. With the rounding of \<open>div\<close> and \<open>mod\<close> on \<^typ>\<open>int\<close>, \<open>le_bytes\<close> of
  a negative value is its two's complement.
\<close>

datatype fmt = Fmt_b | Fmt_H | Fmt_I | Fmt_i

fun fmt_size :: "fmt \<Rightarrow> nat" where
  "fmt_size Fmt_b = 1"
| "fmt_size Fmt_H = 2"
| "fmt_size Fmt_I = 4"
| "fmt_size Fmt_i = 4"

fun fmt_min :: "fmt \<Rightarrow> int" where
  "fmt_min Fmt_b = - 128"
| "fmt_min Fmt_H = 0"
| "fmt_min Fmt_I = 0"
| "fmt_min Fmt_i = - 2147483648"

fun fmt_max :: "fmt \<Rightarrow> int" where
  "fmt_max Fmt_b = 127"
| "fmt_max Fmt_H = 65535"
| "fmt_max Fmt_I = 4294967295"
| "fmt_max Fmt_i = 2147483647"

fun fmt_signed :: "fmt \<Rightarrow> bool" where
  "fmt_signed Fmt_b = True"
| "fmt_signed Fmt_H = False"
| "fmt_signed Fmt_I = False"
| "fmt_signed Fmt_i = True"

fun le_bytes :: "nat \<Rightarrow> int \<Rightarrow> bytes" where
  "le_bytes 0 v = []"
| "le_bytes (Suc n) v = (v mod 256) # le_bytes n (v div 256)"

fun le_int :: "bytes \<Rightarrow> int" where
  "le_int [] = 0"
| "le_int (b # bs) = b + 256 * le_int bs"

definition calcsize :: "fmt list \<Rightarrow> nat" where
  "calcsize cs = sum_list (map fmt_size cs)"

fun struct_pack :: "fmt list \<Rightarrow> int list \<Rightarrow> error + bytes" where
  "struct_pack [] [] = Inr []"
| "struct_pack (c # cs) (v # vs) =
     (if fmt_min c \<le> v \<and> v \<le> fmt_max c
      then (case struct_pack cs vs of Inl e \<Rightarrow> Inl e
            | Inr rest \<Rightarrow> Inr (le_bytes (fmt_size c) v @ rest))
      else Inl StructError)"
| "struct_pack cs vs = Inl StructError"

fun struct_unpack :: "fmt list \<Rightarrow> bytes \<Rightarrow> int list" where
  "struct_unpack [] data = []"
| "struct_unpack (c # cs) data =
     (let u = le_int (take (fmt_size c) data);
          v = (if fmt_signed c \<and> u > fmt_max c then u - 2 ^ (8 * fmt_size c) else u)
      in v # struct_unpack cs (drop (fmt_size c) data))"

text \<open>
  A binary file is the list of its bytes. Writing \<open>data\<close> at position \<open>pos\<close> overwrites
  what is there and extends the file when it reaches past the end; a position behind
  the end leaves a gap of zero bytes.
\<close>

definition file_write :: "bytes \<Rightarrow> nat \<Rightarrow> bytes \<Rightarrow> bytes" where
  "file_write content pos data =
     take pos content @ replicate (pos - length content) 0 @ data
       @ drop (pos + length data) content"

section \<open>File header\<close>

definition MAGIC_CDB :: int where
  "MAGIC_CDB = 0xABCDEF99"

definition hdr_fmt :: "fmt list" where
  "hdr_fmt = [Fmt_H, Fmt_H, Fmt_I, Fmt_I, Fmt_I, Fmt_I]"

text \<open>\<^verbatim>\<open>read_file_header(f)\<close> on a file just opened: it reads from position 0.\<close>

definition read_file_header :: "bytes \<Rightarrow> error + int list" where
  "read_file_header f =
     (let size' = calcsize hdr_fmt;
          data = take size' f
      in if length data \<noteq> size' then Inl BadFileHeader
         else Inr (struct_unpack hdr_fmt data))"

section \<open>Index entries\<close>

text \<open>
  The class \<^verbatim>\<open>CDBEntry\<close>; its constructor's defaults are the four constant fields.
\<close>

record CDBEntry =
  ent_x_bitfield :: int
  ent_z_bitfield :: int
  ent_slot_number :: int
  ent_subfile :: int
  ent_constant0 :: int
  ent_unknown0 :: int
  ent_unknown1 :: int
  ent_constant1 :: int

definition CDBEntry_init :: "int \<Rightarrow> int \<Rightarrow> int \<Rightarrow> int \<Rightarrow> CDBEntry" where
  "CDBEntry_init x_bitfield z_bitfield slot_number subfile =
     \<lparr>ent_x_bitfield = x_bitfield, ent_z_bitfield = z_bitfield,
      ent_slot_number = slot_number, ent_subfile = subfile,
      ent_constant0 = 0x20FF, ent_unknown0 = 0xA, ent_unknown1 = 0x1,
      ent_constant1 = 0x8000\<rparr>"

definition CDBEntry_pack :: "CDBEntry \<Rightarrow> error + bytes" where
  "CDBEntry_pack self =
     struct_pack [Fmt_H, Fmt_H, Fmt_H, Fmt_H, Fmt_H, Fmt_H, Fmt_H, Fmt_H]
       [ent_x_bitfield self, ent_z_bitfield self, ent_slot_number self, ent_subfile self,
        ent_constant0 self, ent_unknown0 self, ent_unknown1 self, ent_constant1 self]"

text \<open>
  \<^verbatim>\<open>update_index_entry\<close> touches only the file \<^verbatim>\<open>index.cdb\<close> beside the database:
  \<open>None\<close> when that file does not exist, otherwise its bytes. Opening it in mode
  \<^verbatim>\<open>"ab"\<close> makes every write an append. When packing raises, the file has been opened
  but nothing was written.
\<close>

definition update_index_entry :: "bytes option \<Rightarrow> int \<Rightarrow> int \<Rightarrow> int \<Rightarrow> error + bytes option" where
  "update_index_entry index x z slot_number =
     (case index of
        None \<Rightarrow> Inr None
      | Some old \<Rightarrow>
          (let x_bf = x AND 0x3FFF;
               z_bf = z AND 0x3FFF;
               x_bf = (if x < 0 then (x + push_bit 14 1) AND 0x3FFF else x_bf);
               z_bf = (if z < 0 then (z + push_bit 14 1) AND 0x3FFF else z_bf);
               entry = CDBEntry_init x_bf z_bf slot_number 0
           in case CDBEntry_pack entry of
                Inl e \<Rightarrow> Inl e
              | Inr packed \<Rightarrow> Inr (Some (old @ packed))))"

section \<open>Chunk writer\<close>

text \<open>
  A voxel is the pair \<^verbatim>\<open>(rid, meta)\<close>; \<^verbatim>\<open>flat\<close> is the list of voxels and
  \<^verbatim>\<open>size\<close> the list \<^verbatim>\<open>[width, height, length]\<close>. The three values that
  \<^verbatim>\<open>write_chunk_to_subfile\<close> computes inside its loops are named here; each guards its
  read of \<^verbatim>\<open>flat\<close> with \<^verbatim>\<open>0 <= idx < len(flat)\<close>.
\<close>

type_synonym voxel = "int \<times> int"

definition byte_plane_value ::
  "voxel list \<Rightarrow> int \<Rightarrow> int \<Rightarrow> int \<Rightarrow> int \<Rightarrow> int \<Rightarrow> int \<Rightarrow> int \<Rightarrow> int \<Rightarrow> int \<Rightarrow> int" where
  "byte_plane_value flat width height length' chunk_x chunk_z subchunk x z sub_y =
     (let actual_y = subchunk * 16 + sub_y
      in if actual_y \<ge> height then 0
         else (let wx = chunk_x * 16 + x;
                   wz = chunk_z * 16 + z;
                   idx = actual_y * (width * length') + wz * width + wx
               in if 0 \<le> idx \<and> idx < int (length flat) then fst (flat ! nat idx) else 0))"

definition nibble_plane_value ::
  "voxel list \<Rightarrow> int \<Rightarrow> int \<Rightarrow> int \<Rightarrow> int \<Rightarrow> int \<Rightarrow> int \<Rightarrow> int \<Rightarrow> int \<Rightarrow> int \<Rightarrow> int" where
  "nibble_plane_value flat width height length' chunk_x chunk_z subchunk x z sub_y =
     (let actual_y = subchunk * 16 + sub_y
      in if actual_y \<ge> height then 0
         else (let wx = chunk_x * 16 + x;
                   wz = chunk_z * 16 + z;
                   idx = actual_y * (width * length') + wz * width + wx
               in if 0 \<le> idx \<and> idx < int (length flat) then snd (flat ! nat idx) else 0))"

definition biome_value :: "voxel list \<Rightarrow> int \<Rightarrow> int \<Rightarrow> int \<Rightarrow> int \<Rightarrow> int \<Rightarrow> int" where
  "biome_value flat width chunk_x chunk_z x z =
     (let wx = chunk_x * 16 + x;
          wz = chunk_z * 16 + z;
          idx = wz * width + wx
      in if 0 \<le> idx \<and> idx < int (length flat) then fst (flat ! nat idx) else 1)"

text \<open>The byte-plane loops: \<open>x\<close> outermost, then \<open>z\<close>, then \<open>sub_y\<close>; one append each.\<close>

definition byte_plane ::
  "voxel list \<Rightarrow> int \<Rightarrow> int \<Rightarrow> int \<Rightarrow> int \<Rightarrow> int \<Rightarrow> int \<Rightarrow> bytes \<Rightarrow> error + bytes" where
  "byte_plane flat width height length' chunk_x chunk_z subchunk raw =
     for_each (\<lambda>x.
       for_each (\<lambda>z.
         for_each (\<lambda>sub_y raw.
             bytearray_append raw
               (byte_plane_value flat width height length' chunk_x chunk_z subchunk x z sub_y))
           (py_range 16))
         (py_range 16))
       (py_range 16) raw"

text \<open>
  One step of the nibble-plane loops: the metadata value goes into the low or the high
  half of byte \<^verbatim>\<open>local_index >> 1\<close>.
\<close>

definition nibble_store :: "bytes \<Rightarrow> int \<Rightarrow> int \<Rightarrow> error + bytes" where
  "nibble_store nibbles local_index nibble_value =
     (let byte_i = drop_bit 1 local_index
      in and_then (list_getitem nibbles byte_i) (\<lambda>old.
           if local_index AND 1 = 0
           then bytearray_setitem nibbles byte_i ((old AND 0xF0) OR nibble_value)
           else bytearray_setitem nibbles byte_i ((old AND 0x0F) OR push_bit 4 nibble_value)))"

definition nibble_plane ::
  "voxel list \<Rightarrow> int \<Rightarrow> int \<Rightarrow> int \<Rightarrow> int \<Rightarrow> int \<Rightarrow> int \<Rightarrow> error + bytes" where
  "nibble_plane flat width height length' chunk_x chunk_z subchunk =
     for_each (\<lambda>sub_y.
       for_each (\<lambda>z.
         for_each (\<lambda>x nibbles.
             nibble_store nibbles (sub_y * 256 + z * 16 + x)
               (nibble_plane_value flat width height length' chunk_x chunk_z subchunk x z sub_y))
           (py_range 16))
         (py_range 16))
       (py_range 16) (replicate 0x1000 0)"

definition biome_plane :: "voxel list \<Rightarrow> int \<Rightarrow> int \<Rightarrow> int \<Rightarrow> error + bytes" where
  "biome_plane flat width chunk_x chunk_z =
     for_each (\<lambda>x.
       for_each (\<lambda>z biomes.
           bytearray_setitem biomes (x * 16 + z) (biome_value flat width chunk_x chunk_z x z))
         (py_range 16))
       (py_range 16) (replicate 256 0)"

text \<open>
  The buffer \<^verbatim>\<open>raw\<close>: the subchunk count, then per subchunk (the body of the loop over
  \<^verbatim>\<open>range(subchunk_count)\<close>) the byte-plane, the \<^verbatim>\<open>nibbles\<close> buffer and \<^verbatim>\<open>0x800\<close>
  zero bytes, then \<^verbatim>\<open>0x100\<close> zero bytes and the biomes.
\<close>

definition subchunk_body ::
  "voxel list \<Rightarrow> int \<Rightarrow> int \<Rightarrow> int \<Rightarrow> int \<Rightarrow> int \<Rightarrow> int \<Rightarrow> bytes \<Rightarrow> error + bytes" where
  "subchunk_body flat width height length' chunk_x chunk_z subchunk raw =
     and_then (byte_plane flat width height length' chunk_x chunk_z subchunk raw) (\<lambda>raw.
     and_then (nibble_plane flat width height length' chunk_x chunk_z subchunk) (\<lambda>nibbles.
     Inr (raw @ nibbles @ replicate 0x800 0)))"

definition build_raw :: "voxel list \<Rightarrow> int \<Rightarrow> int \<Rightarrow> int \<Rightarrow> int \<Rightarrow> int \<Rightarrow> error + bytes" where
  "build_raw flat width height length' chunk_x chunk_z =
     (let subchunk_count = (height + 15) div 16
      in and_then (struct_pack [Fmt_H] [subchunk_count]) (\<lambda>raw.
         and_then (for_each (subchunk_body flat width height length' chunk_x chunk_z)
                     (py_range subchunk_count) raw) (\<lambda>raw.
         and_then (biome_plane flat width chunk_x chunk_z) (\<lambda>biomes.
         Inr (raw @ replicate 0x100 0 @ biomes)))))"

text \<open>The chunk header \<^verbatim>\<open>hdr\<close>, from the lengths of the compressed and the raw buffer.\<close>

definition build_hdr :: "int \<Rightarrow> int \<Rightarrow> nat \<Rightarrow> nat \<Rightarrow> error + bytes" where
  "build_hdr chunk_x chunk_z len_comp len_raw =
     and_then (struct_pack [Fmt_I] [encode_position chunk_x chunk_z 0]) (\<lambda>h1.
     and_then (struct_pack [Fmt_b, Fmt_b] [1, 0]) (\<lambda>h2.
     and_then (struct_pack [Fmt_H, Fmt_H, Fmt_H] [0, 0, 0]) (\<lambda>h3.
     let hdr = h1 @ h2 @ h3;
         section_offset = 4 + int (length hdr) + 6 * 16
     in and_then (struct_pack [Fmt_i, Fmt_i, Fmt_i, Fmt_i]
                    [0, section_offset, int len_comp, int len_raw]) (\<lambda>h4.
        and_then (for_each (\<lambda>_ hdr.
              and_then (struct_pack [Fmt_i, Fmt_i, Fmt_i, Fmt_i] [- 1, 0, 0, 0]) (\<lambda>h5.
              Inr (hdr @ h5)))
            (py_range 5) (hdr @ h4)) Inr))))"

text \<open>
  \<^verbatim>\<open>write_chunk_to_subfile\<close>. The open file \<^verbatim>\<open>f\<close> is given by its bytes; the function
  \<^verbatim>\<open>zlib.compress\<close> is the parameter \<open>compress\<close>. Everything that can raise comes before
  the first write, so an error leaves the file as it was. A negative \<^verbatim>\<open>offset\<close> makes
  \<^verbatim>\<open>f.seek\<close> raise.
\<close>

definition write_chunk_to_subfile ::
  "(bytes \<Rightarrow> bytes) \<Rightarrow> bytes \<Rightarrow> int \<Rightarrow> int \<Rightarrow> int \<Rightarrow> voxel list \<Rightarrow> int list \<Rightarrow> error + bytes" where
  "write_chunk_to_subfile compress f offset chunk_x chunk_z flat size' =
     (case size' of
        [width, height, length'] \<Rightarrow>
          and_then (build_raw flat width height length' chunk_x chunk_z) (\<lambda>raw.
          let comp = compress raw
          in and_then (build_hdr chunk_x chunk_z (length comp) (length raw)) (\<lambda>hdr.
             if offset < 0 then Inl OSError
             else and_then (struct_pack [Fmt_I] [MAGIC_CDB]) (\<lambda>magic.
                  let pos = nat offset;
                      f = file_write f pos magic;
                      f = file_write f (pos + length magic) hdr;
                      f = file_write f (pos + length magic + length hdr) comp
                  in Inr f)))
      | _ \<Rightarrow> Inl ValueError)"

section \<open>Insertion\<close>

text \<open>
  The two files the insertion touches: the database (\<open>None\<close> when it does not exist) and
  \<^verbatim>\<open>index.cdb\<close> beside it. A failed insertion returns the error together with the files
  as they are at that moment: chunks and index entries written before stay written.
\<close>

record files =
  cdb_file :: "bytes option"
  index_file :: "bytes option"

text \<open>
  The body of the two chunk loops of \<^verbatim>\<open>insert_structure\<close>. The loop state is the open
  database file \<open>f\<close>, the index file and the running \<^verbatim>\<open>slot_number\<close>.
\<close>

definition insert_chunk ::
  "(bytes \<Rightarrow> bytes) \<Rightarrow> voxel list \<Rightarrow> int list \<Rightarrow> int \<Rightarrow> int \<Rightarrow> int \<Rightarrow> int \<Rightarrow> int \<Rightarrow> int
     \<Rightarrow> bytes \<times> bytes option \<times> int \<Rightarrow> (error \<times> files) + bytes \<times> bytes option \<times> int" where
  "insert_chunk compress flat size' start_x start_z subsize chunks_x cz cx st =
     (case st of (f, index, slot_number) \<Rightarrow>
        (case list_getitem size' 1 of
           Inl e \<Rightarrow> Inl (e, \<lparr>cdb_file = Some f, index_file = index\<rparr>)
         | Inr size1 \<Rightarrow>
             (let block_count = size1 * 16 * 16
              in case for_each (\<lambda>block_idx s. Inr s) (py_range (size1 * 16 * 16)) st of
                   Inl e \<Rightarrow> Inl e
                 | Inr (f, index, slot_number) \<Rightarrow>
                     (let offset = 20 + (cz * chunks_x + cx) * subsize
                      in case write_chunk_to_subfile compress f offset
                                (start_x + cx) (start_z + cz) flat size' of
                           Inl e \<Rightarrow> Inl (e, \<lparr>cdb_file = Some f, index_file = index\<rparr>)
                         | Inr f \<Rightarrow>
                             (case update_index_entry index (start_x + cx) (start_z + cz)
                                     slot_number of
                                Inl e \<Rightarrow> Inl (e, \<lparr>cdb_file = Some f, index_file = index\<rparr>)
                              | Inr index \<Rightarrow> Inr (f, index, slot_number + 1))))))"

definition insert_structure ::
  "(bytes \<Rightarrow> bytes) \<Rightarrow> files \<Rightarrow> voxel list \<Rightarrow> int list \<Rightarrow> int \<Rightarrow> int \<Rightarrow> int
     \<Rightarrow> (error \<times> files) + files" where
  "insert_structure compress fs flat size' start_x start_z slot_number =
     (case cdb_file fs of
        None \<Rightarrow> Inl (FileNotFoundError, fs)
      | Some f \<Rightarrow>
          (case read_file_header f of
             Inl e \<Rightarrow> Inl (e, fs)
           | Inr [s0, s1, count, footer, subsize, unk0] \<Rightarrow>
               (case list_getitem size' 0 of
                  Inl e \<Rightarrow> Inl (e, fs)
                | Inr size0 \<Rightarrow>
                    (case list_getitem size' 2 of
                       Inl e \<Rightarrow> Inl (e, fs)
                     | Inr size2 \<Rightarrow>
                         (let chunks_x = (size0 + 15) div 16;
                              chunks_z = (size2 + 15) div 16
                          in case for_each (\<lambda>cz.
                                    for_each (\<lambda>cx.
                                        insert_chunk compress flat size' start_x start_z
                                          subsize chunks_x cz cx)
                                      (py_range chunks_x))
                                  (py_range chunks_z) (f, index_file fs, slot_number) of
                               Inl e \<Rightarrow> Inl e
                             | Inr (f, index, slot_number) \<Rightarrow>
                                 Inr \<lparr>cdb_file = Some f, index_file = index\<rparr>)))
           | Inr _ \<Rightarrow> Inl (ValueError, fs)))"

text \<open>
  The same routine with the per-block loop and the computation of \<^verbatim>\<open>block_count\<close>
  taken out of the loop body, for comparison with the original.
\<close>

definition insert_chunk_without_block_loop ::
  "(bytes \<Rightarrow> bytes) \<Rightarrow> voxel list \<Rightarrow> int list \<Rightarrow> int \<Rightarrow> int \<Rightarrow> int \<Rightarrow> int \<Rightarrow> int \<Rightarrow> int
     \<Rightarrow> bytes \<times> bytes option \<times> int \<Rightarrow> (error \<times> files) + bytes \<times> bytes option \<times> int" where
  "insert_chunk_without_block_loop compress flat size' start_x start_z subsize chunks_x cz cx st =
     (case st of (f, index, slot_number) \<Rightarrow>
        (let offset = 20 + (cz * chunks_x + cx) * subsize
         in case write_chunk_to_subfile compress f offset
                   (start_x + cx) (start_z + cz) flat size' of
              Inl e \<Rightarrow> Inl (e, \<lparr>cdb_file = Some f, index_file = index\<rparr>)
            | Inr f \<Rightarrow>
                (case update_index_entry index (start_x + cx) (start_z + cz) slot_number of
                   Inl e \<Rightarrow> Inl (e, \<lparr>cdb_file = Some f, index_file = index\<rparr>)
                 | Inr index \<Rightarrow> Inr (f, index, slot_number + 1))))"

definition insert_structure_without_block_loop ::
  "(bytes \<Rightarrow> bytes) \<Rightarrow> files \<Rightarrow> voxel list \<Rightarrow> int list \<Rightarrow> int \<Rightarrow> int \<Rightarrow> int
     \<Rightarrow> (error \<times> files) + files" where
  "insert_structure_without_block_loop compress fs flat size' start_x start_z slot_number =
     (case cdb_file fs of
        None \<Rightarrow> Inl (FileNotFoundError, fs)
      | Some f \<Rightarrow>
          (case read_file_header f of
             Inl e \<Rightarrow> Inl (e, fs)
           | Inr [s0, s1, count, footer, subsize, unk0] \<Rightarrow>
               (case list_getitem size' 0 of
                  Inl e \<Rightarrow> Inl (e, fs)
                | Inr size0 \<Rightarrow>
                    (case list_getitem size' 2 of
                       Inl e \<Rightarrow> Inl (e, fs)
                     | Inr size2 \<Rightarrow>
                         (let chunks_x = (size0 + 15) div 16;
                              chunks_z = (size2 + 15) div 16
                          in case for_each (\<lambda>cz.
                                    for_each (\<lambda>cx.
                                        insert_chunk_without_block_loop compress flat size'
                                          start_x start_z subsize chunks_x cz cx)
                                      (py_range chunks_x))
                                  (py_range chunks_z) (f, index_file fs, slot_number) of
                               Inl e \<Rightarrow> Inl e
                             | Inr (f, index, slot_number) \<Rightarrow>
                                 Inr \<lparr>cdb_file = Some f, index_file = index\<rparr>)))
           | Inr _ \<Rightarrow> Inl (ValueError, fs)))"

section \<open>Structure decoder\<close>

text \<open>
  What \<^verbatim>\<open>nbtlib.load\<close> returns is a tree of tags. Integer tags of every width (Byte,
  Short, Int, Long) are \<open>NInt\<close>. The floating-point tags (Float, Double) are \<open>NFloat\<close>:
  a finite value is written \<open>m * 2 ^ e\<close>, as every binary floating-point number can be,
  and the two infinities and the NaNs are values of their own. The array tags (ByteArray,
  IntArray, LongArray), which \<^verbatim>\<open>nbtlib\<close> hands over as \<^verbatim>\<open>numpy\<close> arrays, are not part of
  the model. The elements of a list tag in a file all have the same kind. The keys of a
  compound are taken to be distinct.
\<close>

datatype pyfloat =
    Float_finite int int
  | Float_inf
  | Float_nan

datatype nbt =
    NInt int
  | NFloat pyfloat
  | NString string
  | NList "nbt list"
  | NCompound "(string \<times> nbt) list"

text \<open>
  What the decoder takes from outside: \<^verbatim>\<open>int()\<close> on text, \<^verbatim>\<open>str()\<close> on a tag that is
  not a string, the global table \<^verbatim>\<open>inverse_block_map\<close>, whose values are tuples of
  integers, and the length of the longest list the interpreter finds memory for.
\<close>

record env =
  int_of_str :: "string \<Rightarrow> int option"
  str_of_tag :: "nbt \<Rightarrow> string"
  inverse_block_map :: "string \<Rightarrow> int list option"
  alloc_limit :: int

text \<open>
  The operations below are the Python operations the decoder applies to tags, with the
  exceptions they raise on a tag of the wrong kind. \<^verbatim>\<open>int()\<close> of a floating-point value
  truncates towards zero and raises on an infinity and on a NaN.
\<close>

definition float_trunc :: "int \<Rightarrow> int \<Rightarrow> int" where
  "float_trunc m e =
     (if 0 \<le> e then m * 2 ^ nat e else sgn m * (\<bar>m\<bar> div 2 ^ nat (- e)))"

definition py_int :: "env \<Rightarrow> nbt \<Rightarrow> error + int" where
  "py_int env v =
     (case v of
        NInt n \<Rightarrow> Inr n
      | NFloat f \<Rightarrow>
          (case f of
             Float_finite m e \<Rightarrow> Inr (float_trunc m e)
           | Float_inf \<Rightarrow> Inl OverflowError
           | Float_nan \<Rightarrow> Inl ValueError)
      | NString s \<Rightarrow> (case int_of_str env s of Some n \<Rightarrow> Inr n | None \<Rightarrow> Inl ValueError)
      | NList xs \<Rightarrow> Inl TypeError
      | NCompound kvs \<Rightarrow> Inl TypeError)"

definition py_str :: "env \<Rightarrow> nbt \<Rightarrow> string" where
  "py_str env v = (case v of NString s \<Rightarrow> s | _ \<Rightarrow> str_of_tag env v)"

definition py_bool :: "nbt \<Rightarrow> bool" where
  "py_bool v =
     (case v of
        NInt n \<Rightarrow> n \<noteq> 0
      | NFloat f \<Rightarrow> (case f of Float_finite m e \<Rightarrow> m \<noteq> 0 | _ \<Rightarrow> True)
      | NString s \<Rightarrow> s \<noteq> []
      | NList xs \<Rightarrow> xs \<noteq> []
      | NCompound kvs \<Rightarrow> kvs \<noteq> [])"

definition py_iter :: "nbt \<Rightarrow> error + nbt list" where
  "py_iter v =
     (case v of
        NInt n \<Rightarrow> Inl TypeError
      | NFloat f \<Rightarrow> Inl TypeError
      | NString s \<Rightarrow> Inr (map (\<lambda>c. NString [c]) s)
      | NList xs \<Rightarrow> Inr xs
      | NCompound kvs \<Rightarrow> Inr (map (\<lambda>kv. NString (fst kv)) kvs))"

text \<open>
  \<^verbatim>\<open>v.get(key, default)\<close> with a string key: a compound looks the key up, a list tag has
  no entry under a string key and answers with the default, the other tags have no
  method \<^verbatim>\<open>get\<close>.
\<close>

definition tag_get :: "nbt \<Rightarrow> string \<Rightarrow> nbt \<Rightarrow> error + nbt" where
  "tag_get v key dflt =
     (case v of
        NCompound kvs \<Rightarrow> Inr (case map_of kvs key of Some w \<Rightarrow> w | None \<Rightarrow> dflt)
      | NList xs \<Rightarrow> Inr dflt
      | _ \<Rightarrow> Inl AttributeError)"

text \<open>
  \<^verbatim>\<open>v[key]\<close> with a string key and \<^verbatim>\<open>v[i]\<close> with an index. A list tag takes whatever is
  not an integer or a slice for a path and calls its \<^verbatim>\<open>get\<close>, and so does a compound with
  whatever is not a string: both end in \<^verbatim>\<open>AttributeError\<close>.
\<close>

definition tag_getitem_key :: "nbt \<Rightarrow> string \<Rightarrow> error + nbt" where
  "tag_getitem_key v key =
     (case v of
        NCompound kvs \<Rightarrow> (case map_of kvs key of Some w \<Rightarrow> Inr w | None \<Rightarrow> Inl KeyError)
      | NList xs \<Rightarrow> Inl AttributeError
      | _ \<Rightarrow> Inl TypeError)"

definition tag_getitem_index :: "nbt \<Rightarrow> int \<Rightarrow> error + nbt" where
  "tag_getitem_index v i =
     (case v of
        NInt n \<Rightarrow> Inl TypeError
      | NFloat f \<Rightarrow> Inl TypeError
      | NString s \<Rightarrow> list_getitem (map (\<lambda>c. NString [c]) s) i
      | NList xs \<Rightarrow> list_getitem xs i
      | NCompound kvs \<Rightarrow> Inl AttributeError)"

text \<open>
  \<^verbatim>\<open>[v] * n\<close>: the count has to fit an index-sized integer, which on a 64-bit build of
  the interpreter ends at \<^verbatim>\<open>sys.maxsize\<close> \<open>= 2 ^ 63 - 1\<close>, or the multiplication raises
  \<^verbatim>\<open>OverflowError\<close>; a list longer than the interpreter finds memory for raises
  \<^verbatim>\<open>MemoryError\<close>; a count that is not positive gives the empty list.
\<close>

definition sys_maxsize :: int where
  "sys_maxsize = 2 ^ 63 - 1"

definition list_repeat :: "env \<Rightarrow> 'a \<Rightarrow> int \<Rightarrow> error + 'a list" where
  "list_repeat env v n =
     (if n < - sys_maxsize - 1 \<or> sys_maxsize < n then Inl OverflowError
      else if 0 < n \<and> alloc_limit env < n then Inl MemoryError
      else Inr (replicate (nat n) v))"

fun py_join :: "string \<Rightarrow> string list \<Rightarrow> string" where
  "py_join sep [] = []"
| "py_join sep [s] = s"
| "py_join sep (s # t # ss) = s @ sep @ py_join sep (t # ss)"

definition format_block_name :: "env \<Rightarrow> string \<Rightarrow> nbt \<Rightarrow> error + string" where
  "format_block_name env name props =
     (if py_bool props
      then (case props of
              NCompound kvs \<Rightarrow>
                Inr (name @ ''['' @
                     py_join '','' (map (\<lambda>kv. fst kv @ ''='' @ py_str env (snd kv))
                                      (sort_key fst kvs)) @ '']'')
            | _ \<Rightarrow> Inl AttributeError)
      else Inr name)"

definition get_block_id :: "env \<Rightarrow> string \<Rightarrow> int list" where
  "get_block_id env name =
     (case inverse_block_map env name of Some t \<Rightarrow> t | None \<Rightarrow> [0, 0])"

text \<open>
  The \<^verbatim>\<open>try\<close> block of \<^verbatim>\<open>parse_nbt_structure\<close>: \<open>None\<close> stands for a file that
  \<^verbatim>\<open>nbtlib.load\<close> could not load. The caller turns every error of this part into
  \<^verbatim>\<open>ValueError("Invalid NBT")\<close>.
\<close>

definition load_fields :: "env \<Rightarrow> nbt option \<Rightarrow> error + nbt \<times> int list \<times> nbt" where
  "load_fields env loaded =
     (case loaded of
        None \<Rightarrow> Inl OSError
      | Some nbt_file \<Rightarrow>
          and_then (tag_get nbt_file ''blocks'' (NList [])) (\<lambda>blocks.
          and_then (tag_get nbt_file ''size'' (NList [NInt 0, NInt 0, NInt 0])) (\<lambda>sz.
          and_then (py_iter sz) (\<lambda>ds.
          and_then (for_each (\<lambda>d acc. and_then (py_int env d) (\<lambda>n. Inr (acc @ [n]))) ds [])
            (\<lambda>size'.
          and_then (tag_get nbt_file ''palette'' (NList [])) (\<lambda>palette.
          Inr (blocks, size', palette)))))))"

text \<open>The palette loop: \<^verbatim>\<open>palmap[i] = format_block_name(name, props)\<close>.\<close>

definition palette_entry ::
  "env \<Rightarrow> int \<times> nbt \<Rightarrow> (int \<Rightarrow> string option) \<Rightarrow> error + (int \<Rightarrow> string option)" where
  "palette_entry env ie palmap =
     (case ie of (i, entry) \<Rightarrow>
        and_then (tag_get entry ''Name'' (NString ''minecraft:air'')) (\<lambda>n.
        let name = py_str env n
        in and_then (tag_get entry ''Properties'' (NCompound [])) (\<lambda>props.
           and_then (format_block_name env name props) (\<lambda>formatted.
           Inr (palmap(i \<mapsto> formatted))))))"

text \<open>The block loop: one assignment \<^verbatim>\<open>flat[idx] = (rid, meta)\<close> per entry of \<^verbatim>\<open>blocks\<close>.\<close>

definition place_block ::
  "env \<Rightarrow> (int \<Rightarrow> string option) \<Rightarrow> int \<Rightarrow> int \<Rightarrow> nbt \<Rightarrow> voxel list \<Rightarrow> error + voxel list" where
  "place_block env palmap width length' b flat =
     and_then (tag_getitem_key b ''pos'') (\<lambda>pos.
     and_then (tag_getitem_index pos 0) (\<lambda>p0. and_then (py_int env p0) (\<lambda>x.
     and_then (tag_getitem_index pos 1) (\<lambda>p1. and_then (py_int env p1) (\<lambda>y.
     and_then (tag_getitem_index pos 2) (\<lambda>p2. and_then (py_int env p2) (\<lambda>z.
     and_then (tag_get b ''state'' (NInt 0)) (\<lambda>s. and_then (py_int env s) (\<lambda>state.
     let name = (case palmap state of Some n \<Rightarrow> n | None \<Rightarrow> ''minecraft:air'')
     in case get_block_id env name of
          [rid, meta] \<Rightarrow>
            (let idx = y * (width * length') + z * width + x
             in list_setitem flat idx (rid, meta))
        | _ \<Rightarrow> Inl ValueError)))))))))"

definition parse_nbt_structure :: "env \<Rightarrow> nbt option \<Rightarrow> error + voxel list \<times> int list" where
  "parse_nbt_structure env loaded =
     (case load_fields env loaded of
        Inl e \<Rightarrow> Inl InvalidNBT
      | Inr (blocks, size', palette) \<Rightarrow>
          and_then (py_iter palette) (\<lambda>entries.
          and_then (for_each (palette_entry env)
                      (zip (map int [0..<length entries]) entries) Map.empty) (\<lambda>palmap.
          case size' of
            [width, height, length'] \<Rightarrow>
              (let total = width * height * length'
               in and_then (list_repeat env (0, 0) total) (\<lambda>flat.
                  and_then (py_iter blocks) (\<lambda>bs.
                  and_then (for_each (place_block env palmap width length') bs flat) (\<lambda>flat.
                  if int (length flat) \<noteq> total then Inl SizeMismatch
                  else Inr (flat, size')))))
          | _ \<Rightarrow> Inl ValueError)))"


section \<open>Properties of the position codec\<close>

lemma and_3FFF: "(v::int) AND 0x3FFF = v mod 16384"
proof -
  have m: "(0x3FFF::int) = mask 14" by (simp add: mask_eq_exp_minus_1)
  have "v AND mask 14 = v mod 2 ^ 14"
    by (simp only: take_bit_eq_mask [symmetric] take_bit_eq_mod)
  then show ?thesis unfolding m [symmetric] by simp
qed

lemma and_F: "(v::int) AND 0xF = v mod 16"
proof -
  have m: "(0xF::int) = mask 4" by (simp add: mask_eq_exp_minus_1)
  have "v AND mask 4 = v mod 2 ^ 4"
    by (simp only: take_bit_eq_mask [symmetric] take_bit_eq_mod)
  then show ?thesis unfolding m [symmetric] by simp
qed

lemma or_shift_add:
  assumes "0 \<le> a" "a < 2 ^ n"
  shows "push_bit n (b::int) OR a = b * 2 ^ n + a"
proof -
  have "take_bit n a = a" using assms by (simp add: take_bit_int_eq_self)
  then have "push_bit n b OR a = push_bit n b OR take_bit n a" by simp
  also have "\<dots> = push_bit n b + take_bit n a"
    by (rule disjunctive_add [symmetric]) (auto simp add: bit_simps)
  finally show ?thesis using \<open>take_bit n a = a\<close> by (simp add: push_bit_eq_mult)
qed

lemma encode_position_arith:
  "encode_position x z dim =
     (dim mod 16) * 268435456
       + ((if z < 0 then z + 16384 else z) mod 16384) * 16384
       + (if x < 0 then x + 16384 else x) mod 16384"
proof -
  define a where "a = (if x < 0 then x + 16384 else x) mod 16384"
  define b where "b = (if z < 0 then z + 16384 else z) mod 16384"
  define d where "d = dim mod 16"
  have a: "0 \<le> a" "a < 2 ^ 14" by (simp_all add: a_def)
  have b: "0 \<le> b" "b < 2 ^ 14" by (simp_all add: b_def)
  have "encode_position x z dim = (push_bit 28 d OR push_bit 14 b) OR a"
    by (simp add: encode_position_def Let_def and_3FFF and_F a_def b_def d_def)
  also have "push_bit 28 d OR push_bit 14 b = push_bit 14 (push_bit 14 d OR b)"
    by (simp add: push_bit_or push_bit_push_bit)
  also have "push_bit 14 d OR b = d * 2 ^ 14 + b"
    using b by (rule or_shift_add)
  also have "push_bit 14 (d * 2 ^ 14 + b) OR a = (d * 2 ^ 14 + b) * 2 ^ 14 + a"
    using a by (rule or_shift_add)
  finally have "encode_position x z dim = (d * 2 ^ 14 + b) * 2 ^ 14 + a" .
  then show ?thesis unfolding a_def b_def d_def by (simp add: algebra_simps)
qed

lemma parse_position_arith:
  "parse_position (CDBPosition_init val) =
     (let x = val mod 16384; z = (val div 16384) mod 16384
      in (if x \<ge> 8192 then x - 16384 else x,
          if z \<ge> 8192 then z - 16384 else z,
          (val div 268435456) mod 16))"
  by (simp add: parse_position_def to_signed_def CDBPosition_init_def Let_def
      and_3FFF and_F drop_bit_eq_div)


lemma div_mod_step:
  fixes a q :: int
  assumes "0 \<le> a" "a < 16384"
  shows "(q * 16384 + a) mod 16384 = a" "(q * 16384 + a) div 16384 = q"
  using assms by simp_all

lemma unpack3:
  fixes a b d :: int
  assumes "0 \<le> a" "a < 16384" "0 \<le> b" "b < 16384" "0 \<le> d" "d < 16"
  shows "(d * 268435456 + b * 16384 + a) mod 16384 = a"
    and "((d * 268435456 + b * 16384 + a) div 16384) mod 16384 = b"
    and "((d * 268435456 + b * 16384 + a) div 268435456) mod 16 = d"
proof -
  have v1: "d * 268435456 + b * 16384 + a = (d * 16384 + b) * 16384 + a" by simp
  show "(d * 268435456 + b * 16384 + a) mod 16384 = a"
    unfolding v1 using assms(1,2) by (rule div_mod_step)
  have q1: "(d * 268435456 + b * 16384 + a) div 16384 = d * 16384 + b"
    unfolding v1 using assms(1,2) by (rule div_mod_step)
  show "((d * 268435456 + b * 16384 + a) div 16384) mod 16384 = b"
    unfolding q1 using assms(3,4) by (rule div_mod_step)
  have "(d * 268435456 + b * 16384 + a) div 268435456
          = ((d * 268435456 + b * 16384 + a) div 16384) div 16384"
    by (simp add: div_mult2_eq [symmetric])
  also have "\<dots> = d" unfolding q1 using assms(3,4) by (rule div_mod_step)
  finally show "((d * 268435456 + b * 16384 + a) div 268435456) mod 16 = d"
    using assms(5,6) by simp
qed

text \<open>
  Claim C1. For all \<open>x\<close> and \<open>z\<close> in \<open>[-8192, 8191]\<close> and every \<open>dim\<close> in \<open>[0, 15]\<close>,
  decoding the packed value that \<^verbatim>\<open>encode_position\<close> returns (constructing a
  \<^verbatim>\<open>CDBPosition\<close> from it and calling \<^verbatim>\<open>parse_position\<close>) gives back exactly
  \<open>(x, z, dim)\<close>.
\<close>

theorem C1_encode_then_parse:
  fixes x z dim :: int
  assumes "- 8192 \<le> x" "x \<le> 8191" "- 8192 \<le> z" "z \<le> 8191" "0 \<le> dim" "dim \<le> 15"
  shows "parse_position (CDBPosition_init (encode_position x z dim)) = (x, z, dim)"
proof -
  define a where "a = (if x < 0 then x + 16384 else x)"
  define b where "b = (if z < 0 then z + 16384 else z)"
  have a: "0 \<le> a" "a < 16384" using assms by (auto simp: a_def)
  have b: "0 \<le> b" "b < 16384" using assms by (auto simp: b_def)
  have d: "0 \<le> dim" "dim < 16" using assms by auto
  have e: "encode_position x z dim = dim * 268435456 + b * 16384 + a"
    using a b d unfolding encode_position_arith a_def [symmetric] b_def [symmetric] by simp
  have xa: "(if a \<ge> 8192 then a - 16384 else a) = x" using assms by (auto simp: a_def)
  have zb: "(if b \<ge> 8192 then b - 16384 else b) = z" using assms by (auto simp: b_def)
  show ?thesis
    unfolding e parse_position_arith Let_def unpack3 [OF a b d]
    using xa zb by simp
qed

theorem C1_encode_then_parse_witness:
  "(- 8192 \<le> (- 1 :: int) \<and> (- 1 :: int) \<le> 8191 \<and> (0 :: int) \<le> 3 \<and> (3 :: int) \<le> 15) \<and>
   parse_position (CDBPosition_init (encode_position (- 1) 8191 3)) = (- 1, 8191, 3)"
  using C1_encode_then_parse [of "- 1" 8191 3] by simp

text \<open>
  Claim C10. The codec also round-trips in the other direction: for every unsigned
  32-bit value \<open>v\<close>, encoding the triple that \<^verbatim>\<open>CDBPosition(v).parse_position()\<close>
  returns gives back exactly \<open>v\<close>.
\<close>

theorem C10_parse_then_encode:
  fixes v :: int
  assumes "0 \<le> v" "v < 2 ^ 32"
  shows "(case parse_position (CDBPosition_init v) of (x, z, dim) \<Rightarrow> encode_position x z dim) = v"
proof -
  define a where "a = v mod 16384"
  define b where "b = (v div 16384) mod 16384"
  define d where "d = v div 268435456"
  have a: "0 \<le> a" "a < 16384" by (simp_all add: a_def)
  have b: "0 \<le> b" "b < 16384" by (simp_all add: b_def)
  have d: "0 \<le> d" "d < 16" using assms by (simp_all add: d_def)
  have dd: "v div 16384 div 16384 = d" by (simp add: d_def div_mult2_eq [symmetric])
  have v: "v = d * 268435456 + b * 16384 + a"
  proof -
    have "v = (v div 16384) * 16384 + a" by (simp add: a_def)
    also have "v div 16384 = (v div 16384 div 16384) * 16384 + b" by (simp add: b_def)
    finally show ?thesis unfolding dd by simp
  qed
  define x' where "x' = (if a \<ge> 8192 then a - 16384 else a)"
  define z' where "z' = (if b \<ge> 8192 then b - 16384 else b)"
  have p: "parse_position (CDBPosition_init v) = (x', z', d)"
    using d unfolding parse_position_arith Let_def x'_def z'_def a_def b_def d_def by simp
  have xa: "(if x' < 0 then x' + 16384 else x') mod 16384 = a" using a by (auto simp: x'_def)
  have zb: "(if z' < 0 then z' + 16384 else z') mod 16384 = b" using b by (auto simp: z'_def)
  have "encode_position x' z' d = d * 268435456 + b * 16384 + a"
    unfolding encode_position_arith xa zb using d by simp
  then show ?thesis unfolding p using v by simp
qed

theorem C10_parse_then_encode_witness:
  "((0 :: int) \<le> 0x0FFFFFFF \<and> (0x0FFFFFFF :: int) < 2 ^ 32) \<and>
   (case parse_position (CDBPosition_init 0x0FFFFFFF) of
      (x, z, dim) \<Rightarrow> encode_position x z dim) = 0x0FFFFFFF"
  using C10_parse_then_encode [of "0x0FFFFFFF"] by simp

section \<open>Loops and buffers\<close>

lemma and_then_simps [simp]:
  "and_then (Inr a) f = f a"
  "and_then (Inl e) f = Inl e"
  by (simp_all add: and_then_def)

lemma and_then_Inr_iff:
  "and_then m f = Inr b \<longleftrightarrow> (\<exists>a. m = Inr a \<and> f a = Inr b)"
  by (cases m) simp_all

lemma length_py_range [simp]: "length (py_range n) = nat n"
  by (simp add: py_range_def)

lemma nth_py_range [simp]: "k < nat n \<Longrightarrow> py_range n ! k = int k"
  by (simp add: py_range_def)

lemma set_py_range: "set (py_range n) = {0..<n}"
proof (rule set_eqI)
  fix i :: int
  show "i \<in> set (py_range n) \<longleftrightarrow> i \<in> {0..<n}"
  proof
    assume "i \<in> set (py_range n)"
    then obtain k where "k < nat n" "i = int k" by (auto simp: py_range_def)
    then show "i \<in> {0..<n}" by auto
  next
    assume "i \<in> {0..<n}"
    then have "nat i < nat n" "i = int (nat i)" by auto
    then show "i \<in> set (py_range n)" unfolding py_range_def by (metis atLeast0LessThan imageI lessThan_iff set_map set_upt)
  qed
qed

lemma distinct_py_range [simp]: "distinct (py_range n)"
  by (simp add: py_range_def distinct_map)

lemma for_each_append:
  "for_each body (xs @ ys) s =
     (case for_each body xs s of Inl e \<Rightarrow> Inl e | Inr s' \<Rightarrow> for_each body ys s')"
  by (induction xs arbitrary: s) (auto split: sum.splits)

lemma for_each_map:
  "for_each body (map f xs) s = for_each (\<lambda>i. body (f i)) xs s"
  by (induction xs arbitrary: s) (auto split: sum.splits)

lemma for_each_product:
  "for_each (\<lambda>i. for_each (body i) ys) xs s =
     for_each (\<lambda>p. body (fst p) (snd p)) (List.product xs ys) s"
proof (induction xs arbitrary: s)
  case Nil
  then show ?case by simp
next
  case (Cons i xs)
  show ?case
    by (simp add: for_each_append for_each_map Cons.IH split: sum.splits)
qed

lemma for_each_invariant:
  assumes "I s"
    and "\<And>i s. i \<in> set is \<Longrightarrow> I s \<Longrightarrow> \<exists>s'. body i s = Inr s' \<and> I s'"
  shows "\<exists>s'. for_each body is s = Inr s' \<and> I s'"
  using assms
proof (induction "is" arbitrary: s)
  case Nil
  then show ?case by simp
next
  case (Cons i "is")
  from Cons.prems obtain s1 where s1: "body i s = Inr s1" "I s1" by (meson list.set_intros(1))
  have "\<exists>s'. for_each body is s1 = Inr s' \<and> I s'"
    by (rule Cons.IH [OF s1(2)]) (simp add: Cons.prems(2))
  then show ?case using s1 by simp
qed

lemma for_each_preserves:
  assumes "for_each body is s = Inr s'"
    and "I s"
    and "\<And>i s s'. i \<in> set is \<Longrightarrow> I s \<Longrightarrow> body i s = Inr s' \<Longrightarrow> I s'"
  shows "I s'"
  using assms
proof (induction "is" arbitrary: s)
  case Nil
  then show ?case by simp
next
  case (Cons i "is")
  from Cons.prems(1) obtain s1 where s1: "body i s = Inr s1" "for_each body is s1 = Inr s'"
    by (auto split: sum.splits)
  have "I s1" using Cons.prems(2,3) s1(1) by (meson list.set_intros(1))
  then show ?case using Cons.IH [OF s1(2)] Cons.prems(3) by (meson list.set_intros(2))
qed

text \<open>A loop of appends.\<close>

lemma for_each_bytearray_append:
  "for_each (\<lambda>i raw. bytearray_append raw (f i)) is raw =
     (if \<forall>i \<in> set is. 0 \<le> f i \<and> f i < 256 then Inr (raw @ map f is) else Inl ValueError)"
  by (induction "is" arbitrary: raw) (auto simp: bytearray_append_def)

text \<open>A loop of item assignments at distinct positions.\<close>

lemma list_setitem_nat:
  "k < length xs \<Longrightarrow> list_setitem xs (int k) v = Inr (xs[k := v])"
  by (simp add: list_setitem_def Let_def)

lemma for_each_setitem:
  assumes "\<forall>p \<in> set ps. key p < length s"
  shows "for_each (\<lambda>p b. bytearray_setitem b (int (key p)) (val p)) ps s =
     (if \<forall>p \<in> set ps. 0 \<le> val p \<and> val p < 256
      then Inr (fold (\<lambda>p b. b[key p := val p]) ps s) else Inl ValueError)"
  using assms
  by (induction ps arbitrary: s) (auto simp: bytearray_setitem_def list_setitem_nat)

lemma fold_update_length [simp]:
  "length (fold (\<lambda>p b. b[key p := val p]) ps s) = length s"
  by (induction ps arbitrary: s) auto

lemma fold_update_other:
  "k \<notin> key ` set ps \<Longrightarrow> fold (\<lambda>p b. b[key p := val p]) ps s ! k = s ! k"
  by (induction ps arbitrary: s) auto

lemma fold_update_nth:
  assumes "distinct (map key ps)" "p \<in> set ps" "key p < length s"
  shows "fold (\<lambda>p b. b[key p := val p]) ps s ! key p = val p"
  using assms
proof (induction ps arbitrary: s)
  case Nil
  then show ?case by simp
next
  case (Cons q ps)
  show ?case
  proof (cases "p = q")
    case True
    then have "key p \<notin> key ` set ps" using Cons.prems(1) by auto
    then show ?thesis using True Cons.prems(3) by (simp add: fold_update_other)
  next
    case False
    then have "p \<in> set ps" using Cons.prems(2) by simp
    then show ?thesis using Cons.IH [of "s[key q := val q]"] Cons.prems by simp
  qed
qed

section \<open>The planes of a chunk\<close>

lemma set_product_py_range:
  "p \<in> set (List.product (py_range m) (py_range n)) \<longleftrightarrow>
     0 \<le> fst p \<and> fst p < m \<and> 0 \<le> snd p \<and> snd p < n"
  by (cases p) (simp add: set_py_range)

lemma div_mult_add_less: "j < (n::nat) \<Longrightarrow> (i * n + j) div n = i"
  by (cases "n = 0") (simp_all add: div_mult_self3)

lemma mod_mult_add_less: "j < (n::nat) \<Longrightarrow> (i * n + j) mod n = j"
  by (cases "n = 0") simp_all

lemma product_nth_pair:
  assumes "i < length xs" "j < length ys"
  shows "List.product xs ys ! (i * length ys + j) = (xs ! i, ys ! j)"
proof -
  have "i * length ys + j < i * length ys + length ys" using assms by simp
  also have "\<dots> = (i + 1) * length ys" by simp
  also have "\<dots> \<le> length xs * length ys" using assms by (intro mult_le_mono1) simp
  finally have lt: "i * length ys + j < length xs * length ys" .
  have d: "(i * length ys + j) div length ys = i" using assms(2) by (rule div_mult_add_less)
  have m: "(i * length ys + j) mod length ys = j" using assms(2) by (rule mod_mult_add_less)
  show ?thesis unfolding product_nth [OF lt] d m ..
qed

lemma cube_nth:
  assumes "i < 16" "j < 16" "k < 16"
  shows "List.product (List.product (py_range 16) (py_range 16)) (py_range 16)
           ! (i * 256 + j * 16 + k) = ((int i, int j), int k)"
proof -
  have ij: "List.product (py_range 16) (py_range 16) ! (i * 16 + j) = (int i, int j)"
    using product_nth_pair [of i "py_range 16" j "py_range 16"] assms by simp
  have "i * 16 + j < 256" using assms by simp
  then have "List.product (List.product (py_range 16) (py_range 16)) (py_range 16)
           ! ((i * 16 + j) * 16 + k)
         = (List.product (py_range 16) (py_range 16) ! (i * 16 + j), py_range 16 ! k)"
    using product_nth_pair [of "i * 16 + j" "List.product (py_range 16) (py_range 16)" k "py_range 16"]
      assms by simp
  moreover have "(i * 16 + j) * 16 + k = i * 256 + j * 16 + k" by simp
  ultimately have "List.product (List.product (py_range 16) (py_range 16)) (py_range 16)
           ! (i * 256 + j * 16 + k)
         = (List.product (py_range 16) (py_range 16) ! (i * 16 + j), py_range 16 ! k)"
    by (simp only:)
  then show ?thesis unfolding ij using assms(3) by simp
qed

lemma byte_plane_eq:
  "byte_plane flat width height length' chunk_x chunk_z subchunk raw =
     (if \<forall>p \<in> set (List.product (List.product (py_range 16) (py_range 16)) (py_range 16)).
           0 \<le> byte_plane_value flat width height length' chunk_x chunk_z subchunk
                  (fst (fst p)) (snd (fst p)) (snd p) \<and>
           byte_plane_value flat width height length' chunk_x chunk_z subchunk
                  (fst (fst p)) (snd (fst p)) (snd p) < 256
      then Inr (raw @ map (\<lambda>p. byte_plane_value flat width height length' chunk_x chunk_z subchunk
                                 (fst (fst p)) (snd (fst p)) (snd p))
                        (List.product (List.product (py_range 16) (py_range 16)) (py_range 16)))
      else Inl ValueError)"
  unfolding byte_plane_def for_each_product
  by (rule for_each_bytearray_append)

lemma byte_plane_Inr:
  assumes "byte_plane flat width height length' chunk_x chunk_z subchunk raw = Inr raw'"
  shows "\<exists>plane. raw' = raw @ plane \<and> length plane = 4096 \<and>
    (\<forall>i < 16. \<forall>j < 16. \<forall>k < 16.
       plane ! (i * 256 + j * 16 + k) =
         byte_plane_value flat width height length' chunk_x chunk_z subchunk (int i) (int j) (int k))"
proof -
  let ?P = "List.product (List.product (py_range 16) (py_range 16)) (py_range 16)"
  let ?f = "\<lambda>p. byte_plane_value flat width height length' chunk_x chunk_z subchunk
                                 (fst (fst p)) (snd (fst p)) (snd p)"
  from assms have r: "raw' = raw @ map ?f ?P"
    unfolding byte_plane_eq by (simp split: if_splits)
  have l: "length (map ?f ?P) = 4096" by simp
  have n: "map ?f ?P ! (i * 256 + j * 16 + k) = ?f ((int i, int j), int k)"
    if "i < 16" "j < 16" "k < 16" for i j k
  proof -
    have "i * 256 + j * 16 + k < length ?P" using that by simp
    then show ?thesis using that by (simp only: nth_map cube_nth)
  qed
  have "\<forall>i < 16. \<forall>j < 16. \<forall>k < 16. map ?f ?P ! (i * 256 + j * 16 + k) =
         byte_plane_value flat width height length' chunk_x chunk_z subchunk (int i) (int j) (int k)"
    using n by simp
  with r l show ?thesis by blast
qed

lemma byte_plane_succeeds:
  assumes "\<forall>v \<in> set flat. 0 \<le> fst v \<and> fst v < 256"
  shows "\<exists>raw'. byte_plane flat width height length' chunk_x chunk_z subchunk raw = Inr raw'"
proof -
  have "0 \<le> byte_plane_value flat width height length' chunk_x chunk_z subchunk x z sub_y \<and>
        byte_plane_value flat width height length' chunk_x chunk_z subchunk x z sub_y < 256"
    for x z sub_y
    using assms by (auto simp: byte_plane_value_def Let_def)
  then show ?thesis unfolding byte_plane_eq by simp
qed

lemma for_each_cong:
  assumes "\<And>i s. i \<in> set is \<Longrightarrow> body i s = body' i s"
  shows "for_each body is s = for_each body' is s"
  using assms by (induction "is" arbitrary: s) (auto split: sum.splits)

lemma list_setitem_length:
  "list_setitem xs i v = Inr ys \<Longrightarrow> length ys = length xs"
  by (auto simp: list_setitem_def Let_def split: if_splits)

lemma bytearray_setitem_length:
  "bytearray_setitem b i v = Inr b' \<Longrightarrow> length b' = length b"
  by (auto simp: bytearray_setitem_def dest: list_setitem_length split: if_splits)

lemma bytearray_setitem_nat:
  "k < length b \<Longrightarrow> 0 \<le> v \<Longrightarrow> v < 256 \<Longrightarrow> bytearray_setitem b (int k) v = Inr (b[k := v])"
  by (simp add: bytearray_setitem_def list_setitem_nat)

lemma nibble_store_length:
  "nibble_store nibbles local_index nibble_value = Inr nibbles' \<Longrightarrow>
     length nibbles' = length nibbles"
  by (auto simp: nibble_store_def Let_def and_then_Inr_iff
      dest: bytearray_setitem_length split: if_splits)

lemma nibble_plane_length:
  assumes "nibble_plane flat width height length' chunk_x chunk_z subchunk = Inr nibbles"
  shows "length nibbles = 4096"
proof -
  have "length nibbles = 4096"
    by (rule for_each_preserves [where I = "\<lambda>b. length b = 4096",
          OF assms [unfolded nibble_plane_def for_each_product]])
       (simp_all add: nibble_store_length)
  then show ?thesis .
qed

lemma or_byte_bound:
  fixes a b :: int
  assumes "0 \<le> a" "a < 256" "0 \<le> b" "b < 256"
  shows "0 \<le> a OR b" "a OR b < 256"
proof -
  show "0 \<le> a OR b" using assms by simp
  have "a OR b < 2 ^ 8" using assms by (intro OR_upper) simp_all
  then show "a OR b < 256" by simp
qed

lemma and_byte_bound:
  fixes a m :: int
  assumes "0 \<le> m" "m < 256"
  shows "0 \<le> a AND m" "a AND m < 256"
proof -
  show "0 \<le> a AND m" using assms by simp
  have "a AND m \<le> m" using assms(1) by (rule AND_upper2)
  then show "a AND m < 256" using assms(2) by simp
qed

lemma nibble_store_ok:
  assumes len: "length nibbles = 4096"
    and bytes: "\<forall>b \<in> set nibbles. 0 \<le> b \<and> b < 256"
    and li: "0 \<le> local_index" "local_index < 4096"
    and nv: "0 \<le> nibble_value" "nibble_value < 16"
  shows "\<exists>nibbles'. nibble_store nibbles local_index nibble_value = Inr nibbles' \<and>
           length nibbles' = 4096 \<and> (\<forall>b \<in> set nibbles'. 0 \<le> b \<and> b < 256)"
proof -
  define byte_i where "byte_i = drop_bit 1 local_index"
  have bi: "0 \<le> byte_i" "byte_i < 4096" using li by (simp_all add: byte_i_def drop_bit_eq_div)
  define old where "old = nibbles ! nat byte_i"
  have g: "list_getitem nibbles byte_i = Inr old"
    using bi len by (simp add: list_getitem_def Let_def old_def)
  define v where "v = (if local_index AND 1 = 0 then (old AND 0xF0) OR nibble_value
                       else (old AND 0x0F) OR push_bit 4 nibble_value)"
  have p: "0 \<le> push_bit 4 nibble_value" "push_bit 4 nibble_value < 256"
    using nv by (simp_all add: push_bit_eq_mult)
  have n256: "nibble_value < 256" using nv by simp
  have v: "0 \<le> v" "v < 256"
    unfolding v_def using or_byte_bound [OF and_byte_bound [of "0xF0" old] nv(1) n256]
      or_byte_bound [OF and_byte_bound [of "0x0F" old] p] by auto
  have "nibble_store nibbles local_index nibble_value = bytearray_setitem nibbles byte_i v"
    unfolding nibble_store_def Let_def byte_i_def [symmetric] g v_def by simp
  also have "\<dots> = Inr (nibbles[nat byte_i := v])"
    using bytearray_setitem_nat [of "nat byte_i" nibbles v] bi len v by simp
  finally have s: "nibble_store nibbles local_index nibble_value = Inr (nibbles[nat byte_i := v])" .
  have "\<forall>b \<in> set (nibbles[nat byte_i := v]). 0 \<le> b \<and> b < 256"
    using bytes v set_update_subset_insert [of nibbles "nat byte_i" v] by auto
  then show ?thesis using s len by simp
qed


lemma nibble_plane_value_bound:
  assumes "\<forall>v \<in> set flat. 0 \<le> snd v \<and> snd v < 16"
  shows "0 \<le> nibble_plane_value flat width height length' chunk_x chunk_z subchunk x z sub_y \<and>
         nibble_plane_value flat width height length' chunk_x chunk_z subchunk x z sub_y < 16"
  using assms by (auto simp: nibble_plane_value_def Let_def)

lemma nibble_plane_succeeds:
  assumes "\<forall>v \<in> set flat. 0 \<le> snd v \<and> snd v < 16"
  shows "\<exists>nibbles. nibble_plane flat width height length' chunk_x chunk_z subchunk = Inr nibbles"
proof -
  let ?I = "\<lambda>b :: bytes. length b = 4096 \<and> (\<forall>v \<in> set b. 0 \<le> v \<and> v < 256)"
  have init: "?I (replicate 0x1000 0)" by simp
  have step: "\<exists>s'. nibble_store s (fst (fst p) * 256 + snd (fst p) * 16 + snd p)
                 (nibble_plane_value flat width height length' chunk_x chunk_z subchunk
                    (snd p) (snd (fst p)) (fst (fst p))) = Inr s' \<and> ?I s'"
    if "p \<in> set (List.product (List.product (py_range 16) (py_range 16)) (py_range 16))" "?I s"
    for p s
  proof -
    obtain a b c where p: "p = ((a, b), c)" by (metis surj_pair)
    from that(1) have r: "0 \<le> a" "a < 16" "0 \<le> b" "b < 16" "0 \<le> c" "c < 16"
      unfolding p by (simp_all add: set_py_range)
    then have li: "0 \<le> a * 256 + b * 16 + c" "a * 256 + b * 16 + c < 4096" by simp_all
    have len: "length s = 4096" and bytes: "\<forall>v \<in> set s. 0 \<le> v \<and> v < 256"
      using that(2) by simp_all
    have nv: "0 \<le> nibble_plane_value flat width height length' chunk_x chunk_z subchunk c b a"
      "nibble_plane_value flat width height length' chunk_x chunk_z subchunk c b a < 16"
      using nibble_plane_value_bound [OF assms] by simp_all
    show ?thesis unfolding p fst_conv snd_conv
      by (rule nibble_store_ok [OF len bytes li nv])
  qed
  have "\<exists>s'. for_each (\<lambda>p. \<lambda>nibbles. nibble_store nibbles (fst (fst p) * 256 + snd (fst p) * 16 + snd p)
                 (nibble_plane_value flat width height length' chunk_x chunk_z subchunk
                    (snd p) (snd (fst p)) (fst (fst p))))
            (List.product (List.product (py_range 16) (py_range 16)) (py_range 16))
            (replicate 0x1000 0) = Inr s' \<and> ?I s'"
    using init step by (rule for_each_invariant)
  then show ?thesis unfolding nibble_plane_def for_each_product by blast
qed

lemma biome_key_inj:
  "inj_on (\<lambda>p. nat (fst p * 16 + snd p)) (set (py_range 16) \<times> set (py_range 16))"
proof (rule inj_onI)
  fix p q :: "int \<times> int"
  assume p: "p \<in> set (py_range 16) \<times> set (py_range 16)"
    and q: "q \<in> set (py_range 16) \<times> set (py_range 16)"
    and e: "nat (fst p * 16 + snd p) = nat (fst q * 16 + snd q)"
  from p have pr: "0 \<le> fst p" "fst p < 16" "0 \<le> snd p" "snd p < 16"
    by (auto simp: set_py_range)
  from q have qr: "0 \<le> fst q" "fst q < 16" "0 \<le> snd q" "snd q < 16"
    by (auto simp: set_py_range)
  from e pr qr have eq: "fst p * 16 + snd p = fst q * 16 + snd q" by simp
  have "(fst p * 16 + snd p) div 16 = fst p" using pr by simp
  moreover have "(fst q * 16 + snd q) div 16 = fst q" using qr by simp
  ultimately have f: "fst p = fst q" using eq by simp
  with eq have "snd p = snd q" by simp
  with f show "p = q" by (simp add: prod_eq_iff)
qed

lemma biome_plane_eq:
  "biome_plane flat width chunk_x chunk_z =
     (if \<forall>p \<in> set (List.product (py_range 16) (py_range 16)).
           0 \<le> biome_value flat width chunk_x chunk_z (fst p) (snd p) \<and>
           biome_value flat width chunk_x chunk_z (fst p) (snd p) < 256
      then Inr (fold (\<lambda>p b. b[nat (fst p * 16 + snd p) :=
                               biome_value flat width chunk_x chunk_z (fst p) (snd p)])
                  (List.product (py_range 16) (py_range 16)) (replicate 256 0))
      else Inl ValueError)"
proof -
  let ?P = "List.product (py_range 16) (py_range 16)"
  have keys: "\<forall>p \<in> set ?P. nat (fst p * 16 + snd p) < length (replicate 256 (0::int))"
    by (auto simp: set_py_range)
  have "biome_plane flat width chunk_x chunk_z =
      for_each (\<lambda>p b. bytearray_setitem b (int (nat (fst p * 16 + snd p)))
                        (biome_value flat width chunk_x chunk_z (fst p) (snd p)))
        ?P (replicate 256 0)"
    unfolding biome_plane_def for_each_product
    by (rule for_each_cong) (auto simp: set_py_range)
  also note for_each_setitem [OF keys]
  finally show ?thesis .
qed

lemma biome_plane_Inr:
  assumes "biome_plane flat width chunk_x chunk_z = Inr biomes"
  shows "length biomes = 256"
    and "\<And>i j. i < 16 \<Longrightarrow> j < 16 \<Longrightarrow>
           biomes ! (i * 16 + j) = biome_value flat width chunk_x chunk_z (int i) (int j)"
proof -
  let ?P = "List.product (py_range 16) (py_range 16)"
  let ?key = "\<lambda>p :: int \<times> int. nat (fst p * 16 + snd p)"
  let ?val = "\<lambda>p. biome_value flat width chunk_x chunk_z (fst p) (snd p)"
  from assms have b: "biomes = fold (\<lambda>p b. b[?key p := ?val p]) ?P (replicate 256 0)"
    unfolding biome_plane_eq by (simp split: if_splits)
  show "length biomes = 256" unfolding b by simp
  have d: "distinct (map ?key ?P)"
    by (simp add: distinct_map distinct_product biome_key_inj)
  show "biomes ! (i * 16 + j) = biome_value flat width chunk_x chunk_z (int i) (int j)"
    if "i < 16" "j < 16" for i j
  proof -
    have m: "(int i, int j) \<in> set ?P" using that by (simp add: set_py_range)
    have k: "?key (int i, int j) = i * 16 + j" by (simp add: nat_add_distrib nat_mult_distrib)
    have "fold (\<lambda>p b. b[?key p := ?val p]) ?P (replicate 256 0) ! ?key (int i, int j)
            = ?val (int i, int j)"
      using that by (intro fold_update_nth [OF d m]) (simp add: k)
    then show ?thesis unfolding b k by simp
  qed
qed

lemma biome_plane_succeeds:
  assumes "\<forall>v \<in> set flat. 0 \<le> fst v \<and> fst v < 256"
  shows "\<exists>biomes. biome_plane flat width chunk_x chunk_z = Inr biomes"
proof -
  have "0 \<le> biome_value flat width chunk_x chunk_z x z \<and>
        biome_value flat width chunk_x chunk_z x z < 256" for x z
    using assms by (auto simp: biome_value_def Let_def)
  then show ?thesis unfolding biome_plane_eq by simp
qed

lemma nth_concat_blocks:
  assumes "\<forall>b \<in> set blocks. length b = n" "k < length blocks" "j < n"
  shows "concat blocks ! (k * n + j) = blocks ! k ! j"
  using assms
proof (induction blocks arbitrary: k)
  case Nil
  then show ?case by simp
next
  case (Cons b blocks)
  show ?case
  proof (cases k)
    case 0
    then show ?thesis using Cons.prems by (simp add: nth_append)
  next
    case (Suc k')
    have "concat (b # blocks) ! (k * n + j) = concat blocks ! (k' * n + j)"
      using Cons.prems Suc by (simp add: nth_append)
    also have "\<dots> = blocks ! k' ! j"
      using Cons.prems Suc by (intro Cons.IH) simp_all
    finally show ?thesis using Suc by simp
  qed
qed

lemma length_concat_blocks:
  "\<forall>b \<in> set blocks. length b = n \<Longrightarrow> length (concat blocks) = length blocks * n"
  by (induction blocks) simp_all

section \<open>The raw buffer\<close>

lemma subchunk_body_Inr:
  assumes "subchunk_body flat width height length' chunk_x chunk_z subchunk raw = Inr raw'"
  shows "\<exists>block. raw' = raw @ block \<and> length block = 10240 \<and>
    (\<forall>i < 16. \<forall>j < 16. \<forall>k < 16.
       block ! (i * 256 + j * 16 + k) =
         byte_plane_value flat width height length' chunk_x chunk_z subchunk (int i) (int j) (int k))"
proof -
  from assms obtain raw1 nibbles where
    bp: "byte_plane flat width height length' chunk_x chunk_z subchunk raw = Inr raw1"
    and np: "nibble_plane flat width height length' chunk_x chunk_z subchunk = Inr nibbles"
    and r: "raw' = raw1 @ nibbles @ replicate 0x800 0"
    unfolding subchunk_body_def by (auto simp: and_then_Inr_iff)
  from byte_plane_Inr [OF bp] obtain plane where plane: "raw1 = raw @ plane" "length plane = 4096"
    and nth: "\<forall>i < 16. \<forall>j < 16. \<forall>k < 16.
       plane ! (i * 256 + j * 16 + k) =
         byte_plane_value flat width height length' chunk_x chunk_z subchunk (int i) (int j) (int k)"
    by blast
  have nl: "length nibbles = 4096" using np by (rule nibble_plane_length)
  have "raw' = raw @ plane @ nibbles @ replicate 0x800 0" using r plane(1) by simp
  moreover have "length (plane @ nibbles @ replicate 0x800 0) = 10240" using plane(2) nl by simp
  moreover have "\<forall>i < 16. \<forall>j < 16. \<forall>k < 16.
       (plane @ nibbles @ replicate 0x800 0) ! (i * 256 + j * 16 + k) =
         byte_plane_value flat width height length' chunk_x chunk_z subchunk (int i) (int j) (int k)"
  proof (intro allI impI)
    fix i j k :: nat
    assume ijk: "i < 16" "j < 16" "k < 16"
    then have "i * 256 + j * 16 + k < length plane" using plane(2) by simp
    then show "(plane @ nibbles @ replicate 0x800 0) ! (i * 256 + j * 16 + k) =
         byte_plane_value flat width height length' chunk_x chunk_z subchunk (int i) (int j) (int k)"
      using nth ijk by (simp add: nth_append)
  qed
  ultimately show ?thesis by blast
qed

lemma subchunk_loop_Inr:
  assumes "for_each (subchunk_body flat width height length' chunk_x chunk_z) ss raw = Inr raw'"
  shows "\<exists>blocks. raw' = raw @ concat blocks \<and> length blocks = length ss \<and>
           (\<forall>b \<in> set blocks. length b = 10240) \<and>
           (\<forall>n < length ss. \<forall>i < 16. \<forall>j < 16. \<forall>k < 16.
              blocks ! n ! (i * 256 + j * 16 + k) =
                byte_plane_value flat width height length' chunk_x chunk_z (ss ! n)
                  (int i) (int j) (int k))"
  using assms
proof (induction ss arbitrary: raw)
  case Nil
  then show ?case by simp
next
  case (Cons s ss)
  from Cons.prems obtain raw1 where
    s1: "subchunk_body flat width height length' chunk_x chunk_z s raw = Inr raw1"
    and rest: "for_each (subchunk_body flat width height length' chunk_x chunk_z) ss raw1 = Inr raw'"
    by (auto split: sum.splits)
  from subchunk_body_Inr [OF s1] obtain block where
    block: "raw1 = raw @ block" "length block = 10240"
    and nth: "\<forall>i < 16. \<forall>j < 16. \<forall>k < 16.
       block ! (i * 256 + j * 16 + k) =
         byte_plane_value flat width height length' chunk_x chunk_z s (int i) (int j) (int k)"
    by blast
  from Cons.IH [OF rest] obtain blocks where
    b: "raw' = raw1 @ concat blocks" "length blocks = length ss"
      "\<forall>b \<in> set blocks. length b = 10240"
      "\<forall>n < length ss. \<forall>i < 16. \<forall>j < 16. \<forall>k < 16.
              blocks ! n ! (i * 256 + j * 16 + k) =
                byte_plane_value flat width height length' chunk_x chunk_z (ss ! n)
                  (int i) (int j) (int k)"
    by blast
  have "\<forall>n < length (s # ss). \<forall>i < 16. \<forall>j < 16. \<forall>k < 16.
              (block # blocks) ! n ! (i * 256 + j * 16 + k) =
                byte_plane_value flat width height length' chunk_x chunk_z ((s # ss) ! n)
                  (int i) (int j) (int k)"
  proof (intro allI impI)
    fix n i j k :: nat
    assume n: "n < length (s # ss)" and ijk: "i < 16" "j < 16" "k < 16"
    show "(block # blocks) ! n ! (i * 256 + j * 16 + k) =
                byte_plane_value flat width height length' chunk_x chunk_z ((s # ss) ! n)
                  (int i) (int j) (int k)"
    proof (cases n)
      case 0
      then show ?thesis using nth ijk by simp
    next
      case (Suc n')
      then have "n' < length ss" using n by simp
      with b(4) ijk Suc show ?thesis by simp
    qed
  qed
  moreover have "raw' = raw @ concat (block # blocks)" using b(1) block(1) by simp
  moreover have "length (block # blocks) = length (s # ss)" using b(2) by simp
  moreover have "\<forall>b \<in> set (block # blocks). length b = 10240" using b(3) block(2) by simp
  ultimately show ?case by blast
qed

lemma struct_pack_H:
  "struct_pack [Fmt_H] [v] = (if 0 \<le> v \<and> v \<le> 65535 then Inr (le_bytes 2 v) else Inl StructError)"
  by simp

lemma length_le_bytes [simp]: "length (le_bytes n v) = n"
  by (induction n arbitrary: v) simp_all

lemma build_raw_Inr:
  assumes "build_raw flat width height length' chunk_x chunk_z = Inr raw"
  obtains blocks biomes where
    "0 \<le> (height + 15) div 16" "(height + 15) div 16 \<le> 65535"
    "raw = le_bytes 2 ((height + 15) div 16) @ concat blocks @ replicate 256 0 @ biomes"
    "length blocks = nat ((height + 15) div 16)"
    "\<forall>b \<in> set blocks. length b = 10240"
    "\<And>n i j k. n < nat ((height + 15) div 16) \<Longrightarrow> i < 16 \<Longrightarrow> j < 16 \<Longrightarrow> k < 16 \<Longrightarrow>
       blocks ! n ! (i * 256 + j * 16 + k) =
         byte_plane_value flat width height length' chunk_x chunk_z (int n) (int i) (int j) (int k)"
    "length biomes = 256"
    "\<And>i j. i < 16 \<Longrightarrow> j < 16 \<Longrightarrow>
       biomes ! (i * 16 + j) = biome_value flat width chunk_x chunk_z (int i) (int j)"
proof -
  define sc where "sc = (height + 15) div 16"
  from assms obtain raw0 raw1 biomes where
    p: "struct_pack [Fmt_H] [sc] = Inr raw0"
    and l: "for_each (subchunk_body flat width height length' chunk_x chunk_z)
              (py_range sc) raw0 = Inr raw1"
    and bi: "biome_plane flat width chunk_x chunk_z = Inr biomes"
    and r: "raw = raw1 @ replicate 0x100 0 @ biomes"
    unfolding build_raw_def Let_def sc_def [symmetric] by (auto simp: and_then_Inr_iff)
  from p have sc: "0 \<le> sc" "sc \<le> 65535" and raw0: "raw0 = le_bytes 2 sc"
    unfolding struct_pack_H by (simp_all split: if_splits)
  from subchunk_loop_Inr [OF l] obtain blocks where
    b: "raw1 = raw0 @ concat blocks" "length blocks = length (py_range sc)"
      "\<forall>b \<in> set blocks. length b = 10240"
      "\<forall>n < length (py_range sc). \<forall>i < 16. \<forall>j < 16. \<forall>k < 16.
              blocks ! n ! (i * 256 + j * 16 + k) =
                byte_plane_value flat width height length' chunk_x chunk_z (py_range sc ! n)
                  (int i) (int j) (int k)"
    by blast
  show thesis
  proof (rule that [of blocks biomes])
    show "0 \<le> (height + 15) div 16" "(height + 15) div 16 \<le> 65535"
      using sc by (simp_all add: sc_def)
    show "raw = le_bytes 2 ((height + 15) div 16) @ concat blocks @ replicate 256 0 @ biomes"
      using r b(1) raw0 by (simp add: sc_def)
    show "length blocks = nat ((height + 15) div 16)" using b(2) by (simp add: sc_def)
    show "\<forall>b \<in> set blocks. length b = 10240" by (rule b(3))
    show "blocks ! n ! (i * 256 + j * 16 + k) =
         byte_plane_value flat width height length' chunk_x chunk_z (int n) (int i) (int j) (int k)"
      if "n < nat ((height + 15) div 16)" "i < 16" "j < 16" "k < 16" for n i j k
      using b(4) that by (simp add: sc_def)
    show "length biomes = 256" using bi by (rule biome_plane_Inr)
    show "biomes ! (i * 16 + j) = biome_value flat width chunk_x chunk_z (int i) (int j)"
      if "i < 16" "j < 16" for i j
      using bi that by (rule biome_plane_Inr)
  qed
qed

lemma build_raw_length:
  assumes "build_raw flat width height length' chunk_x chunk_z = Inr raw"
  shows "length raw = 2 + nat ((height + 15) div 16) * 10240 + 256 + 256"
proof (rule build_raw_Inr [OF assms])
  fix blocks biomes
  assume raw: "raw = le_bytes 2 ((height + 15) div 16) @ concat blocks @ replicate 256 0 @ biomes"
    and len: "length blocks = nat ((height + 15) div 16)"
    and bl: "\<forall>b \<in> set blocks. length b = 10240"
    and bi: "length biomes = 256"
  have "length (concat blocks) = nat ((height + 15) div 16) * 10240"
    using length_concat_blocks [OF bl] len by simp
  then show ?thesis unfolding raw using bi by simp
qed

lemma build_raw_byte_plane_nth:
  assumes "build_raw flat width height length' chunk_x chunk_z = Inr raw"
    and "n < nat ((height + 15) div 16)" "i < 16" "j < 16" "k < 16"
  shows "raw ! (2 + n * 10240 + (i * 256 + j * 16 + k)) =
           byte_plane_value flat width height length' chunk_x chunk_z (int n) (int i) (int j) (int k)"
proof (rule build_raw_Inr [OF assms(1)])
  fix blocks biomes
  assume raw: "raw = le_bytes 2 ((height + 15) div 16) @ concat blocks @ replicate 256 0 @ biomes"
    and len: "length blocks = nat ((height + 15) div 16)"
    and bl: "\<forall>b \<in> set blocks. length b = 10240"
    and nth: "\<And>n i j k. n < nat ((height + 15) div 16) \<Longrightarrow> i < 16 \<Longrightarrow> j < 16 \<Longrightarrow> k < 16 \<Longrightarrow>
       blocks ! n ! (i * 256 + j * 16 + k) =
         byte_plane_value flat width height length' chunk_x chunk_z (int n) (int i) (int j) (int k)"
  have ijk: "i * 256 + j * 16 + k < 10240" using assms(3-5) by simp
  have n: "n < length blocks" using assms(2) len by simp
  have "n * 10240 + (i * 256 + j * 16 + k) < (n + 1) * 10240" using ijk by simp
  also have "\<dots> \<le> length blocks * 10240" using n by (intro mult_le_mono1) simp
  finally have lt: "n * 10240 + (i * 256 + j * 16 + k) < length (concat blocks)"
    by (simp add: length_concat_blocks [OF bl])
  have "raw ! (2 + n * 10240 + (i * 256 + j * 16 + k))
          = (concat blocks @ replicate 256 0 @ biomes) ! (n * 10240 + (i * 256 + j * 16 + k))"
    unfolding raw by (simp add: nth_append)
  also have "\<dots> = concat blocks ! (n * 10240 + (i * 256 + j * 16 + k))"
    using lt by (simp add: nth_append)
  also have "\<dots> = blocks ! n ! (i * 256 + j * 16 + k)"
    using bl n ijk by (rule nth_concat_blocks)
  also have "\<dots> = byte_plane_value flat width height length' chunk_x chunk_z
                       (int n) (int i) (int j) (int k)"
    using assms(2-5) by (rule nth)
  finally show ?thesis .
qed

lemma build_raw_biome_nth:
  assumes "build_raw flat width height length' chunk_x chunk_z = Inr raw"
    and "i < 16" "j < 16"
  shows "raw ! (2 + nat ((height + 15) div 16) * 10240 + 256 + (i * 16 + j)) =
           biome_value flat width chunk_x chunk_z (int i) (int j)"
proof (rule build_raw_Inr [OF assms(1)])
  fix blocks biomes
  assume raw: "raw = le_bytes 2 ((height + 15) div 16) @ concat blocks @ replicate 256 0 @ biomes"
    and len: "length blocks = nat ((height + 15) div 16)"
    and bl: "\<forall>b \<in> set blocks. length b = 10240"
    and nth: "\<And>i j. i < 16 \<Longrightarrow> j < 16 \<Longrightarrow>
       biomes ! (i * 16 + j) = biome_value flat width chunk_x chunk_z (int i) (int j)"
  have c: "length (concat blocks) = nat ((height + 15) div 16) * 10240"
    using length_concat_blocks [OF bl] len by simp
  have "raw ! (2 + nat ((height + 15) div 16) * 10240 + 256 + (i * 16 + j))
          = biomes ! (i * 16 + j)"
    unfolding raw using c by (simp add: nth_append)
  then show ?thesis using nth [OF assms(2,3)] by simp
qed

lemma subchunk_loop_succeeds:
  assumes "\<forall>v \<in> set flat. 0 \<le> fst v \<and> fst v < 256 \<and> 0 \<le> snd v \<and> snd v < 16"
  shows "\<exists>raw'. for_each (subchunk_body flat width height length' chunk_x chunk_z) ss raw = Inr raw'"
proof -
  have "\<exists>raw'. subchunk_body flat width height length' chunk_x chunk_z s raw = Inr raw' \<and> True"
    for s raw
  proof -
    obtain raw1 where "byte_plane flat width height length' chunk_x chunk_z s raw = Inr raw1"
      using byte_plane_succeeds [of flat] assms by blast
    moreover obtain nibbles where "nibble_plane flat width height length' chunk_x chunk_z s = Inr nibbles"
      using nibble_plane_succeeds [of flat] assms by blast
    ultimately show ?thesis by (simp add: subchunk_body_def)
  qed
  then have "\<exists>raw'. for_each (subchunk_body flat width height length' chunk_x chunk_z) ss raw = Inr raw' \<and> True"
    by (intro for_each_invariant) simp_all
  then show ?thesis by simp
qed

lemma build_raw_succeeds:
  assumes "\<forall>v \<in> set flat. 0 \<le> fst v \<and> fst v < 256 \<and> 0 \<le> snd v \<and> snd v < 16"
    and "0 \<le> (height + 15) div 16" "(height + 15) div 16 \<le> 65535"
  shows "\<exists>raw. build_raw flat width height length' chunk_x chunk_z = Inr raw"
proof -
  obtain raw1 where l: "for_each (subchunk_body flat width height length' chunk_x chunk_z)
      (py_range ((height + 15) div 16)) (le_bytes 2 ((height + 15) div 16)) = Inr raw1"
    using subchunk_loop_succeeds [OF assms(1)] by blast
  obtain biomes where b: "biome_plane flat width chunk_x chunk_z = Inr biomes"
    using biome_plane_succeeds [of flat] assms(1) by blast
  show ?thesis
    unfolding build_raw_def Let_def struct_pack_H using assms(2,3) l b by simp
qed

lemma byte_plane_Inr_bounds:
  assumes "byte_plane flat width height length' chunk_x chunk_z subchunk raw = Inr raw'"
    and "i < 16" "j < 16" "k < 16"
  shows "0 \<le> byte_plane_value flat width height length' chunk_x chunk_z subchunk (int i) (int j) (int k)
       \<and> byte_plane_value flat width height length' chunk_x chunk_z subchunk (int i) (int j) (int k) < 256"
proof -
  let ?P = "List.product (List.product (py_range 16) (py_range 16)) (py_range 16)"
  have m: "((int i, int j), int k) \<in> set ?P" using assms(2-4) by (simp add: set_py_range)
  from assms(1) have "\<forall>p \<in> set ?P.
           0 \<le> byte_plane_value flat width height length' chunk_x chunk_z subchunk
                  (fst (fst p)) (snd (fst p)) (snd p) \<and>
           byte_plane_value flat width height length' chunk_x chunk_z subchunk
                  (fst (fst p)) (snd (fst p)) (snd p) < 256"
    unfolding byte_plane_eq by (simp split: if_splits)
  from bspec [OF this m] show ?thesis by simp
qed

lemma subchunk_loop_bounds:
  assumes "for_each (subchunk_body flat width height length' chunk_x chunk_z) ss raw = Inr raw'"
    and "s \<in> set ss" "i < 16" "j < 16" "k < 16"
  shows "0 \<le> byte_plane_value flat width height length' chunk_x chunk_z s (int i) (int j) (int k)
       \<and> byte_plane_value flat width height length' chunk_x chunk_z s (int i) (int j) (int k) < 256"
  using assms(1,2)
proof (induction ss arbitrary: raw)
  case Nil
  then show ?case by simp
next
  case (Cons t ss)
  from Cons.prems(1) obtain raw1 where
    s1: "subchunk_body flat width height length' chunk_x chunk_z t raw = Inr raw1"
    and rest: "for_each (subchunk_body flat width height length' chunk_x chunk_z) ss raw1 = Inr raw'"
    by (auto split: sum.splits)
  show ?case
  proof (cases "s = t")
    case True
    from s1 obtain raw2 where
      "byte_plane flat width height length' chunk_x chunk_z t raw = Inr raw2"
      unfolding subchunk_body_def by (auto simp: and_then_Inr_iff)
    then show ?thesis using True assms(3-5) by (simp only: byte_plane_Inr_bounds)
  next
    case False
    then have "s \<in> set ss" using Cons.prems(2) by simp
    then show ?thesis using Cons.IH [OF rest] by simp
  qed
qed

lemma build_raw_byte_plane_bounds:
  assumes "build_raw flat width height length' chunk_x chunk_z = Inr raw"
    and "n < nat ((height + 15) div 16)" "i < 16" "j < 16" "k < 16"
  shows "0 \<le> byte_plane_value flat width height length' chunk_x chunk_z (int n) (int i) (int j) (int k)
       \<and> byte_plane_value flat width height length' chunk_x chunk_z (int n) (int i) (int j) (int k) < 256"
proof -
  from assms(1) obtain raw0 raw1 where
    l: "for_each (subchunk_body flat width height length' chunk_x chunk_z)
              (py_range ((height + 15) div 16)) raw0 = Inr raw1"
    unfolding build_raw_def Let_def by (auto simp: and_then_Inr_iff)
  have "int n \<in> set (py_range ((height + 15) div 16))"
    using assms(2) by (simp add: set_py_range)
  from subchunk_loop_bounds [OF l this assms(3-5)] show ?thesis .
qed

lemma build_raw_biome_bounds:
  assumes "build_raw flat width height length' chunk_x chunk_z = Inr raw"
    and "i < 16" "j < 16"
  shows "0 \<le> biome_value flat width chunk_x chunk_z (int i) (int j)
       \<and> biome_value flat width chunk_x chunk_z (int i) (int j) < 256"
proof -
  let ?P = "List.product (py_range 16) (py_range 16)"
  from assms(1) obtain biomes where
    "biome_plane flat width chunk_x chunk_z = Inr biomes"
    unfolding build_raw_def Let_def by (auto simp: and_then_Inr_iff)
  then have "\<forall>p \<in> set ?P.
           0 \<le> biome_value flat width chunk_x chunk_z (fst p) (snd p) \<and>
           biome_value flat width chunk_x chunk_z (fst p) (snd p) < 256"
    unfolding biome_plane_eq by (simp split: if_splits)
  moreover have "(int i, int j) \<in> set ?P" using assms(2,3) by (simp add: set_py_range)
  ultimately show ?thesis by fastforce
qed

section \<open>The chunk record in the file\<close>

lemma encode_position_bounds:
  "0 \<le> encode_position x z dim" "encode_position x z dim \<le> 4294967295"
proof -
  define a where "a = (if x < 0 then x + 16384 else x) mod 16384"
  define b where "b = (if z < 0 then z + 16384 else z) mod 16384"
  define d where "d = dim mod 16"
  have a: "0 \<le> a" "a < 16384" by (simp_all add: a_def)
  have b: "0 \<le> b" "b < 16384" by (simp_all add: b_def)
  have d: "0 \<le> d" "d < 16" by (simp_all add: d_def)
  have e: "encode_position x z dim = d * 268435456 + b * 16384 + a"
    unfolding encode_position_arith a_def b_def d_def ..
  show "0 \<le> encode_position x z dim" unfolding e using a b d by simp
  show "encode_position x z dim \<le> 4294967295" unfolding e using a b d by simp
qed

lemma py_range_5: "py_range 5 = [0, 1, 2, 3, 4]"
  by code_simp

lemma le_bytes_4: "le_bytes 4 v = [v mod 256, v div 256 mod 256, v div 256 div 256 mod 256,
    v div 256 div 256 div 256 mod 256]"
  by (simp add: eval_nat_numeral)


lemma build_hdr_eq:
  "build_hdr chunk_x chunk_z len_comp len_raw =
     (if int len_comp \<le> 2147483647 \<and> int len_raw \<le> 2147483647
      then Inr (le_bytes 4 (encode_position chunk_x chunk_z 0) @
                (le_bytes 1 1 @ le_bytes 1 0) @
                (le_bytes 2 0 @ le_bytes 2 0 @ le_bytes 2 0) @
                (le_bytes 4 0 @ le_bytes 4 112 @ le_bytes 4 (int len_comp) @ le_bytes 4 (int len_raw)) @
                (le_bytes 4 (- 1) @ le_bytes 4 0 @ le_bytes 4 0 @ le_bytes 4 0) @
                (le_bytes 4 (- 1) @ le_bytes 4 0 @ le_bytes 4 0 @ le_bytes 4 0) @
                (le_bytes 4 (- 1) @ le_bytes 4 0 @ le_bytes 4 0 @ le_bytes 4 0) @
                (le_bytes 4 (- 1) @ le_bytes 4 0 @ le_bytes 4 0 @ le_bytes 4 0) @
                (le_bytes 4 (- 1) @ le_bytes 4 0 @ le_bytes 4 0 @ le_bytes 4 0))
      else Inl StructError)"
  unfolding build_hdr_def
  by (simp add: encode_position_bounds py_range_5 Let_def eval_nat_numeral(1)
      del: le_bytes.simps)


lemma build_hdr_Inr:
  assumes "build_hdr chunk_x chunk_z len_comp len_raw = Inr hdr"
  shows "length hdr = 108"
    and "take 4 hdr = le_bytes 4 (encode_position chunk_x chunk_z 0)"
    and "take 16 (drop 12 hdr) =
           le_bytes 4 0 @ le_bytes 4 112 @ le_bytes 4 (int len_comp) @ le_bytes 4 (int len_raw)"
    and "int len_comp \<le> 2147483647" "int len_raw \<le> 2147483647"
  using assms unfolding build_hdr_eq by (auto split: if_splits)

lemma file_write_append:
  "file_write (file_write f pos a) (pos + length a) b = file_write f pos (a @ b)"
proof -
  define pre where "pre = take pos f @ replicate (pos - length f) 0"
  have lp: "length pre = pos" by (simp add: pre_def)
  have w: "file_write f pos a = pre @ a @ drop (pos + length a) f"
    by (simp add: file_write_def pre_def)
  have "file_write (pre @ a @ drop (pos + length a) f) (pos + length a) b
          = pre @ a @ b @ drop (pos + length a + length b) f"
    unfolding file_write_def using lp by (simp add: add.commute add.left_commute)
  then show ?thesis unfolding w by (simp add: file_write_def pre_def add.assoc)
qed

lemma file_write_read_back:
  "drop pos (file_write f pos d) = d @ drop (pos + length d) f"
proof -
  define pre where "pre = take pos f @ replicate (pos - length f) 0"
  have lp: "length pre = pos" by (simp add: pre_def)
  have w: "file_write f pos d = pre @ d @ drop (pos + length d) f"
    by (simp add: file_write_def pre_def)
  show ?thesis unfolding w using lp by simp
qed

lemma file_write_before:
  "take pos (file_write f pos d) = take pos f @ replicate (pos - length f) 0"
proof -
  define pre where "pre = take pos f @ replicate (pos - length f) 0"
  have lp: "length pre = pos" by (simp add: pre_def)
  have w: "file_write f pos d = pre @ d @ drop (pos + length d) f"
    by (simp add: file_write_def pre_def)
  show ?thesis unfolding w using lp by (simp add: pre_def)
qed

lemma le_int_le_bytes: "le_int (le_bytes n v) = v mod 256 ^ n"
proof (induction n arbitrary: v)
  case 0
  then show ?case by simp
next
  case (Suc n)
  have "le_int (le_bytes (Suc n) v) = v mod 256 + 256 * ((v div 256) mod 256 ^ n)"
    by (simp add: Suc.IH)
  also have "\<dots> = v mod (256 * 256 ^ n)"
    by (simp add: zmod_zmult2_eq)
  finally show ?case by simp
qed

lemma unpack_i32:
  assumes "0 \<le> v" "v \<le> 2147483647"
  shows "struct_unpack (Fmt_i # cs) (le_bytes 4 v @ rest) = v # struct_unpack cs rest"
proof -
  have "le_int (le_bytes 4 v) = v" unfolding le_int_le_bytes using assms by simp
  then show ?thesis using assms by (simp add: Let_def del: le_bytes.simps)
qed

lemma unpack_section_entry:
  assumes "0 \<le> a" "a \<le> 2147483647" "0 \<le> b" "b \<le> 2147483647"
    "0 \<le> c" "c \<le> 2147483647" "0 \<le> d" "d \<le> 2147483647"
  shows "struct_unpack [Fmt_i, Fmt_i, Fmt_i, Fmt_i]
           (le_bytes 4 a @ le_bytes 4 b @ le_bytes 4 c @ le_bytes 4 d) = [a, b, c, d]"
proof -
  have "struct_unpack [Fmt_i, Fmt_i, Fmt_i, Fmt_i]
           (le_bytes 4 a @ le_bytes 4 b @ le_bytes 4 c @ le_bytes 4 d @ []) = [a, b, c, d]"
    unfolding unpack_i32 [OF assms(1,2)] unpack_i32 [OF assms(3,4)] unpack_i32 [OF assms(5,6)]
      unpack_i32 [OF assms(7,8)] by simp
  then show ?thesis by simp
qed

lemma write_chunk_Inr:
  assumes "write_chunk_to_subfile compress f offset chunk_x chunk_z flat [width, height, length'] = Inr f'"
  shows "\<exists>raw hdr. build_raw flat width height length' chunk_x chunk_z = Inr raw \<and>
           build_hdr chunk_x chunk_z (length (compress raw)) (length raw) = Inr hdr \<and>
           0 \<le> offset \<and>
           f' = file_write f (nat offset) (le_bytes 4 MAGIC_CDB @ hdr @ compress raw)"
proof -
  have magic: "struct_pack [Fmt_I] [MAGIC_CDB] = Inr (le_bytes 4 MAGIC_CDB)"
    by (simp add: MAGIC_CDB_def del: le_bytes.simps)
  from assms obtain raw hdr where
    raw: "build_raw flat width height length' chunk_x chunk_z = Inr raw"
    and hdr: "build_hdr chunk_x chunk_z (length (compress raw)) (length raw) = Inr hdr"
    and off: "0 \<le> offset"
    and f': "f' = file_write (file_write (file_write f (nat offset) (le_bytes 4 MAGIC_CDB))
                    (nat offset + 4) hdr) (nat offset + 4 + length hdr) (compress raw)"
    unfolding write_chunk_to_subfile_def magic
    by (auto simp: and_then_Inr_iff Let_def split: if_splits)
  have "f' = file_write f (nat offset) (le_bytes 4 MAGIC_CDB @ hdr @ compress raw)"
    unfolding f'
    using file_write_append [of f "nat offset" "le_bytes 4 MAGIC_CDB" hdr]
      file_write_append [of f "nat offset" "le_bytes 4 MAGIC_CDB @ hdr" "compress raw"]
    by (simp add: add.assoc)
  with raw hdr off show ?thesis by blast
qed

lemma write_chunk_succeeds:
  assumes "build_raw flat width height length' chunk_x chunk_z = Inr raw"
    and "int (length (compress raw)) \<le> 2147483647" "int (length raw) \<le> 2147483647"
    and "0 \<le> offset"
  shows "\<exists>f'. write_chunk_to_subfile compress f offset chunk_x chunk_z flat [width, height, length'] = Inr f'"
proof -
  have magic: "struct_pack [Fmt_I] [MAGIC_CDB] = Inr (le_bytes 4 MAGIC_CDB)"
    by (simp add: MAGIC_CDB_def del: le_bytes.simps)
  obtain hdr where "build_hdr chunk_x chunk_z (length (compress raw)) (length raw) = Inr hdr"
    unfolding build_hdr_eq using assms(2,3) by simp
  then show ?thesis
    unfolding write_chunk_to_subfile_def magic using assms(1,4) by (simp add: Let_def)
qed

lemma subchunk_count_is_ceiling:
  fixes height :: int
  shows "height \<le> 16 * ((height + 15) div 16)" "16 * ((height + 15) div 16) < height + 16"
  by simp_all

lemma write_chunk_layout:
  assumes "write_chunk_to_subfile compress f offset chunk_x chunk_z flat [width, height, length'] = Inr f'"
  shows "\<exists>raw. build_raw flat width height length' chunk_x chunk_z = Inr raw \<and>
     length raw = 2 + nat ((height + 15) div 16) * 10240 + 256 + 256 \<and>
     0 \<le> offset \<and>
     take 4 (drop (nat offset) f') = le_bytes 4 MAGIC_CDB \<and>
     struct_unpack [Fmt_i, Fmt_i, Fmt_i, Fmt_i] (take 16 (drop (nat offset + 16) f')) =
       [0, 112, int (length (compress raw)), int (length raw)] \<and>
     take (length (compress raw)) (drop (nat offset + 112) f') = compress raw"
proof -
  from write_chunk_Inr [OF assms] obtain raw hdr where
    raw: "build_raw flat width height length' chunk_x chunk_z = Inr raw"
    and hdr: "build_hdr chunk_x chunk_z (length (compress raw)) (length raw) = Inr hdr"
    and off: "0 \<le> offset"
    and f': "f' = file_write f (nat offset) (le_bytes 4 MAGIC_CDB @ hdr @ compress raw)"
    by blast
  note h = build_hdr_Inr [OF hdr]
  define rest where "rest = drop (nat offset + length (le_bytes 4 MAGIC_CDB @ hdr @ compress raw)) f"
  have d: "drop (nat offset) f' = le_bytes 4 MAGIC_CDB @ hdr @ compress raw @ rest"
    unfolding f' file_write_read_back rest_def by simp
  have m: "take 4 (drop (nat offset) f') = le_bytes 4 MAGIC_CDB"
    unfolding d by simp
  have "drop (nat offset + 16) f' = drop 16 (drop (nat offset) f')"
    by (simp add: add.commute)
  also have "\<dots> = drop 12 hdr @ compress raw @ rest"
    unfolding d using h(1) by simp
  finally have "take 16 (drop (nat offset + 16) f') = take 16 (drop 12 hdr)"
    using h(1) by simp
  then have t: "take 16 (drop (nat offset + 16) f') =
      le_bytes 4 0 @ le_bytes 4 112 @ le_bytes 4 (int (length (compress raw)))
        @ le_bytes 4 (int (length raw))"
    using h(3) by simp
  have u: "struct_unpack [Fmt_i, Fmt_i, Fmt_i, Fmt_i] (take 16 (drop (nat offset + 16) f')) =
       [0, 112, int (length (compress raw)), int (length raw)]"
    unfolding t using h(4,5) by (intro unpack_section_entry) simp_all
  have "drop (nat offset + 112) f' = drop 112 (drop (nat offset) f')"
    by (simp add: add.commute)
  also have "\<dots> = compress raw @ rest"
    unfolding d using h(1) by simp
  finally have p: "take (length (compress raw)) (drop (nat offset + 112) f') = compress raw"
    by simp
  from raw build_raw_length [OF raw] off m u p show ?thesis by blast
qed

text \<open>
  Claim C2, as amended. In the code the buffer \<^verbatim>\<open>nibbles\<close> is \<^verbatim>\<open>bytearray(0x1000)\<close>, 4096
  bytes of which the packing fills the first 2048, and all of it goes into \<^verbatim>\<open>raw\<close>. So
  for every chunk that \<^verbatim>\<open>write_chunk_to_subfile\<close> writes, with declared height \<open>H\<close> and
  \<open>subchunk_count = ceil(H / 16)\<close>, the raw buffer has length
  \<open>2 + subchunk_count * (4096 + 4096 + 2048) + 256 + 256\<close>; slot 0 of the section table,
  at bytes 16 to 31 of the record, holds \<open>(0, 112, compressedLen, rawLen)\<close> with
  \<open>rawLen\<close> that length and \<open>compressedLen\<close> the length of the compressed payload; and
  that payload is what stands in the file from byte 112 of the record on.
\<close>

theorem C2_raw_length_and_section_table:
  assumes "write_chunk_to_subfile compress f offset chunk_x chunk_z flat [width, height, length'] = Inr f'"
  shows "\<exists>raw. build_raw flat width height length' chunk_x chunk_z = Inr raw \<and>
     length raw = 2 + nat ((height + 15) div 16) * (4096 + 4096 + 2048) + 256 + 256 \<and>
     height \<le> 16 * ((height + 15) div 16) \<and> 16 * ((height + 15) div 16) < height + 16 \<and>
     struct_unpack [Fmt_i, Fmt_i, Fmt_i, Fmt_i] (take 16 (drop (nat offset + 16) f')) =
       [0, 112, int (length (compress raw)), int (length raw)] \<and>
     take (length (compress raw)) (drop (nat offset + 112) f') = compress raw"
proof -
  from write_chunk_layout [OF assms] obtain raw where
    "build_raw flat width height length' chunk_x chunk_z = Inr raw"
    "length raw = 2 + nat ((height + 15) div 16) * 10240 + 256 + 256"
    "struct_unpack [Fmt_i, Fmt_i, Fmt_i, Fmt_i] (take 16 (drop (nat offset + 16) f')) =
       [0, 112, int (length (compress raw)), int (length raw)]"
    "take (length (compress raw)) (drop (nat offset + 112) f') = compress raw"
    by blast
  then show ?thesis using subchunk_count_is_ceiling [of height] by auto
qed

lemma example_chunk_written:
  "\<exists>f' raw. write_chunk_to_subfile (\<lambda>raw. raw) [] 0 0 0 [(5, 3)] [1, 1, 1] = Inr f' \<and>
     build_raw [(5, 3)] 1 1 1 0 0 = Inr raw \<and> length raw = 10754"
proof -
  obtain raw where raw: "build_raw [(5, 3)] 1 1 1 0 0 = Inr raw"
    using build_raw_succeeds [of "[(5, 3)]" 1 1 1 0 0] by auto
  have l: "length raw = 10754" using build_raw_length [OF raw] by simp
  obtain f' where "write_chunk_to_subfile (\<lambda>raw. raw) [] 0 0 0 [(5, 3)] [1, 1, 1] = Inr f'"
    using write_chunk_succeeds [OF raw, of "\<lambda>raw. raw" 0 "[]"] l by auto
  with raw l show ?thesis by blast
qed

theorem C2_raw_length_and_section_table_witness:
  "\<exists>f' raw. write_chunk_to_subfile (\<lambda>raw. raw) [] 0 0 0 [(5, 3)] [1, 1, 1] = Inr f' \<and>
     build_raw [(5, 3)] 1 1 1 0 0 = Inr raw \<and> length raw = 10754 \<and>
     struct_unpack [Fmt_i, Fmt_i, Fmt_i, Fmt_i] (take 16 (drop 16 f')) = [0, 112, 10754, 10754] \<and>
     drop 112 f' = raw"
proof -
  from example_chunk_written obtain f' raw where
    w: "write_chunk_to_subfile (\<lambda>raw. raw) [] 0 0 0 [(5, 3)] [1, 1, 1] = Inr f'"
    and raw: "build_raw [(5, 3)] 1 1 1 0 0 = Inr raw" and l: "length raw = 10754"
    by blast
  have lf: "length f' = 112 + 10754"
    using write_chunk_Inr [OF w] raw l build_hdr_Inr(1) by (auto simp: file_write_def)
  from C2_raw_length_and_section_table [OF w] raw l
  have "struct_unpack [Fmt_i, Fmt_i, Fmt_i, Fmt_i] (take 16 (drop 16 f')) = [0, 112, 10754, 10754]"
    and "take 10754 (drop 112 f') = raw"
    by auto
  with w raw l lf show ?thesis by auto
qed

text \<open>
  The claim as stated gives \<open>2 + 1 * (4096 + 2048 + 2048) + 256 + 256 = 8706\<close> for a chunk
  of height 1; the buffer built for it, and the \<open>rawLen\<close> written, is 10754.
\<close>

theorem C2_claimed_length_counterexample:
  "map_sum id (\<lambda>f'. struct_unpack [Fmt_i, Fmt_i, Fmt_i, Fmt_i] (take 16 (drop 16 f')))
     (write_chunk_to_subfile (\<lambda>raw. raw) [] 0 0 0 [(5, 3)] [1, 1, 1]) = Inr [0, 112, 10754, 10754] \<and>
   map_sum id length (build_raw [(5, 3)] 1 1 1 0 0) = Inr 10754 \<and>
   (10754 :: nat) \<noteq> 2 + nat ((1 + 15) div 16) * (4096 + 2048 + 2048) + 256 + 256"
proof -
  from example_chunk_written obtain f' raw where
    w: "write_chunk_to_subfile (\<lambda>raw. raw) [] 0 0 0 [(5, 3)] [1, 1, 1] = Inr f'"
    and raw: "build_raw [(5, 3)] 1 1 1 0 0 = Inr raw" and l: "length raw = 10754"
    by blast
  from write_chunk_layout [OF w] raw l
  have "struct_unpack [Fmt_i, Fmt_i, Fmt_i, Fmt_i] (take 16 (drop 16 f')) = [0, 112, 10754, 10754]"
    by auto
  with w raw l show ?thesis by simp
qed

section \<open>Byte-plane and biome plane\<close>

lemma voxel_index:
  fixes wx wy wz width height length' :: int
  assumes "0 \<le> wx" "wx < width" "0 \<le> wz" "wz < length'" "0 \<le> wy" "wy < height"
  shows "0 \<le> wy * (width * length') + wz * width + wx"
    and "wy * (width * length') + wz * width + wx < width * height * length'"
proof -
  have wl: "0 \<le> width * length'" using assms by simp
  have row: "wz * width + wx < width * length'"
  proof -
    have "wz * width + wx < wz * width + width" using assms by simp
    also have "\<dots> = (wz + 1) * width" by (simp add: algebra_simps)
    also have "\<dots> \<le> length' * width" using assms by (intro mult_right_mono) simp_all
    finally show ?thesis by (simp add: algebra_simps)
  qed
  have "0 \<le> wy * (width * length')" using assms(5) wl by simp
  moreover have "0 \<le> wz * width + wx" using assms by simp
  ultimately show "0 \<le> wy * (width * length') + wz * width + wx" by simp
  have "wy * (width * length') + wz * width + wx < wy * (width * length') + width * length'"
    using row by simp
  also have "\<dots> = (wy + 1) * (width * length')" by (simp add: algebra_simps)
  also have "\<dots> \<le> height * (width * length')"
    using assms(6) wl by (intro mult_right_mono) simp_all
  finally show "wy * (width * length') + wz * width + wx < width * height * length'"
    by (simp add: algebra_simps)
qed

text \<open>
  The bytes of the byte-plane, as the code computes them. In the buffer \<^verbatim>\<open>raw\<close> that
  \<^verbatim>\<open>write_chunk_to_subfile\<close> builds and compresses, subchunk \<open>s\<close> starts at byte
  \<open>2 + s * (4096 + 4096 + 2048)\<close> with its byte-plane, laid out with \<open>x\<close> outermost, then
  \<open>z\<close>, then \<open>sub_y\<close>. The byte for \<open>(x, z, sub_y)\<close> is 0 when
  \<open>world_y = s * 16 + sub_y \<ge> height\<close>. Below the height the code reads
  \<^verbatim>\<open>flat[idx][0]\<close> at the linear index \<open>idx = world_y * (width * length) + wz * width + wx\<close>
  and guards the read with a test on \<open>idx\<close>. For world coordinates inside a structure
  whose flat array has the declared volume, that is the runtime id of the voxel at
  \<open>(wx, wz, world_y)\<close>.
\<close>

lemma byte_plane_bytes:
  assumes "build_raw flat width height length' chunk_x chunk_z = Inr raw"
    and "s < nat ((height + 15) div 16)" "x < 16" "z < 16" "sub_y < 16"
  shows "raw ! (2 + s * (4096 + 4096 + 2048) + (x * 256 + z * 16 + sub_y)) =
     (let world_y = int s * 16 + int sub_y;
          idx = world_y * (width * length') + (chunk_z * 16 + int z) * width
                  + (chunk_x * 16 + int x)
      in if world_y \<ge> height then 0
         else if 0 \<le> idx \<and> idx < int (length flat) then fst (flat ! nat idx)
         else 0)"
    and "0 \<le> raw ! (2 + s * (4096 + 4096 + 2048) + (x * 256 + z * 16 + sub_y))"
    and "raw ! (2 + s * (4096 + 4096 + 2048) + (x * 256 + z * 16 + sub_y)) < 256"
    and "0 \<le> chunk_x * 16 + int x \<Longrightarrow> chunk_x * 16 + int x < width \<Longrightarrow>
         0 \<le> chunk_z * 16 + int z \<Longrightarrow> chunk_z * 16 + int z < length' \<Longrightarrow>
         int s * 16 + int sub_y < height \<Longrightarrow> int (length flat) = width * height * length' \<Longrightarrow>
         raw ! (2 + s * (4096 + 4096 + 2048) + (x * 256 + z * 16 + sub_y)) =
           fst (flat ! nat ((int s * 16 + int sub_y) * (width * length')
                  + (chunk_z * 16 + int z) * width + (chunk_x * 16 + int x)))"
proof -
  have n: "raw ! (2 + s * (4096 + 4096 + 2048) + (x * 256 + z * 16 + sub_y)) =
      byte_plane_value flat width height length' chunk_x chunk_z (int s) (int x) (int z) (int sub_y)"
    using build_raw_byte_plane_nth [OF assms] by simp
  show "raw ! (2 + s * (4096 + 4096 + 2048) + (x * 256 + z * 16 + sub_y)) =
     (let world_y = int s * 16 + int sub_y;
          idx = world_y * (width * length') + (chunk_z * 16 + int z) * width
                  + (chunk_x * 16 + int x)
      in if world_y \<ge> height then 0
         else if 0 \<le> idx \<and> idx < int (length flat) then fst (flat ! nat idx)
         else 0)"
    unfolding n by (simp add: byte_plane_value_def Let_def)
  show "0 \<le> raw ! (2 + s * (4096 + 4096 + 2048) + (x * 256 + z * 16 + sub_y))"
    and "raw ! (2 + s * (4096 + 4096 + 2048) + (x * 256 + z * 16 + sub_y)) < 256"
    unfolding n using build_raw_byte_plane_bounds [OF assms] by simp_all
  show "raw ! (2 + s * (4096 + 4096 + 2048) + (x * 256 + z * 16 + sub_y)) =
           fst (flat ! nat ((int s * 16 + int sub_y) * (width * length')
                  + (chunk_z * 16 + int z) * width + (chunk_x * 16 + int x)))"
    if "0 \<le> chunk_x * 16 + int x" "chunk_x * 16 + int x < width"
      "0 \<le> chunk_z * 16 + int z" "chunk_z * 16 + int z < length'"
      "int s * 16 + int sub_y < height" "int (length flat) = width * height * length'"
  proof -
    have "0 \<le> int s * 16 + int sub_y" by simp
    from voxel_index [OF that(1-4) this that(5)] that(5,6) show ?thesis
      unfolding n by (simp add: byte_plane_value_def Let_def)
  qed
qed

lemma example_row_chunk:
  "\<exists>raw. build_raw [(1, 0), (2, 0), (3, 0), (4, 0)] 2 1 2 0 0 = Inr raw"
  using build_raw_succeeds [of "[(1, 0), (2, 0), (3, 0), (4, 0)]" 1 2 2 0 0] by simp

lemma byte_plane_id_too_large:
  "byte_plane [(300, 0)] 1 1 1 0 0 0 raw = Inl ValueError"
proof -
  let ?P = "List.product (List.product (py_range 16) (py_range 16)) (py_range 16)"
  have "((0, 0), 0) \<in> set ?P" by (auto simp: set_py_range)
  moreover have "byte_plane_value [(300, 0)] 1 1 1 0 0 0 0 0 0 = 300"
    by (simp add: byte_plane_value_def)
  ultimately have "\<not> (\<forall>p \<in> set ?P.
      0 \<le> byte_plane_value [(300, 0)] 1 1 1 0 0 0 (fst (fst p)) (snd (fst p)) (snd p) \<and>
      byte_plane_value [(300, 0)] 1 1 1 0 0 0 (fst (fst p)) (snd (fst p)) (snd p) < 256)"
    by force
  then show ?thesis unfolding byte_plane_eq by (simp only: if_False)
qed

lemma build_raw_id_too_large:
  "build_raw [(300, 0)] 1 1 1 0 0 = Inl ValueError"
proof -
  have r: "py_range ((1 + 15) div 16) = [0]" by code_simp
  have "subchunk_body [(300, 0)] 1 1 1 0 0 0 raw = Inl ValueError" for raw
    unfolding subchunk_body_def byte_plane_id_too_large by (simp add: and_then_def)
  then show ?thesis
    unfolding build_raw_def Let_def r by (simp add: and_then_def)
qed

text \<open>
  Claim C3. The claim makes each byte of the byte-plane, below the height, the low byte
  of the runtime id of the voxel at the world coordinates \<open>(wx, wz, world_y)\<close>. The code
  does not test the coordinates: it guards \<^verbatim>\<open>flat[idx]\<close> with \<^verbatim>\<open>0 <= idx < len(flat)\<close>, and
  a column on the right of the structure has the index of a voxel of the next row. Below,
  a structure of size 2 x 1 x 2 with the runtime ids 1, 2, 3, 4 is encoded into chunk
  (0, 0): the byte for local \<open>x = 2\<close>, \<open>z = 0\<close>, \<open>sub_y = 0\<close>, a world coordinate with no
  voxel (\<open>wx = 2\<close> is not below the width 2), is 3, the runtime id of the voxel at
  \<open>(0, 1, 0)\<close>, whose index 2 it shares. Nor does the code take the low byte of a
  runtime id: with the id 300 in the flat array the encoder raises \<^verbatim>\<open>ValueError\<close>.
\<close>

theorem C3_column_outside_structure:
  "map_sum id (\<lambda>raw. raw ! (2 + 0 * (4096 + 4096 + 2048) + (2 * 256 + 0 * 16 + 0)))
     (build_raw [(1, 0), (2, 0), (3, 0), (4, 0)] 2 1 2 0 0) = Inr 3 \<and>
   \<not> (0 * 16 + 2 < (2 :: int)) \<and>
   fst ([(1, 0), (2, 0), (3, 0), (4 :: int, 0 :: int)] ! nat (0 * (2 * 2) + 1 * 2 + 0)) = 3 \<and>
   build_raw [(300, 0)] 1 1 1 0 0 = Inl ValueError"
proof -
  from example_row_chunk obtain raw where
    raw: "build_raw [(1, 0), (2, 0), (3, 0), (4, 0)] 2 1 2 0 0 = Inr raw"
    by blast
  have "raw ! (2 + 0 * 10240 + (2 * 256 + 0 * 16 + 0))
          = byte_plane_value [(1, 0), (2, 0), (3, 0), (4, 0)] 2 1 2 0 0 0 2 0 0"
    using build_raw_byte_plane_nth [OF raw, of 0 2 0 0] by simp
  then have "raw ! 514 = 3" by (simp add: byte_plane_value_def)
  then show ?thesis using raw build_raw_id_too_large by simp
qed

text \<open>
  The bytes of the biome plane, as the code computes them. The biome plane follows the
  subchunks and the 256 reserved zero bytes. Its byte at \<open>x * 16 + z\<close> is read from
  \<^verbatim>\<open>flat[idx][0]\<close> at the linear index \<open>idx = wz * width + wx\<close>
  (\<open>wx = chunk_x * 16 + x\<close>, \<open>wz = chunk_z * 16 + z\<close>), with the same test on \<open>idx\<close>, and is
  1 when the test fails. For a world coordinate inside the \<open>width x length\<close> footprint of
  a structure of positive height whose flat array has the declared volume, that is the
  runtime id of the voxel at \<open>(wx, wz)\<close> on the plane \<open>y = 0\<close>.
\<close>

lemma biome_plane_bytes:
  assumes "build_raw flat width height length' chunk_x chunk_z = Inr raw"
    and "x < 16" "z < 16"
  shows "raw ! (2 + nat ((height + 15) div 16) * (4096 + 4096 + 2048) + 256 + (x * 16 + z)) =
     (let wx = chunk_x * 16 + int x;
          wz = chunk_z * 16 + int z;
          idx = wz * width + wx
      in if 0 \<le> idx \<and> idx < int (length flat) then fst (flat ! nat idx) else 1)"
    and "0 \<le> chunk_x * 16 + int x \<Longrightarrow> chunk_x * 16 + int x < width \<Longrightarrow>
         0 \<le> chunk_z * 16 + int z \<Longrightarrow> chunk_z * 16 + int z < length' \<Longrightarrow>
         0 < height \<Longrightarrow> int (length flat) = width * height * length' \<Longrightarrow>
         raw ! (2 + nat ((height + 15) div 16) * (4096 + 4096 + 2048) + 256 + (x * 16 + z)) =
           fst (flat ! nat ((chunk_z * 16 + int z) * width + (chunk_x * 16 + int x)))"
proof -
  have n: "raw ! (2 + nat ((height + 15) div 16) * (4096 + 4096 + 2048) + 256 + (x * 16 + z)) =
      biome_value flat width chunk_x chunk_z (int x) (int z)"
    using build_raw_biome_nth [OF assms] by simp
  show "raw ! (2 + nat ((height + 15) div 16) * (4096 + 4096 + 2048) + 256 + (x * 16 + z)) =
     (let wx = chunk_x * 16 + int x;
          wz = chunk_z * 16 + int z;
          idx = wz * width + wx
      in if 0 \<le> idx \<and> idx < int (length flat) then fst (flat ! nat idx) else 1)"
    unfolding n by (simp add: biome_value_def Let_def)
  show "raw ! (2 + nat ((height + 15) div 16) * (4096 + 4096 + 2048) + 256 + (x * 16 + z)) =
           fst (flat ! nat ((chunk_z * 16 + int z) * width + (chunk_x * 16 + int x)))"
    if "0 \<le> chunk_x * 16 + int x" "chunk_x * 16 + int x < width"
      "0 \<le> chunk_z * 16 + int z" "chunk_z * 16 + int z < length'"
      "0 < height" "int (length flat) = width * height * length'"
  proof -
    from voxel_index [OF that(1-4), of 0 height] that(5,6) show ?thesis
      unfolding n by (simp add: biome_value_def Let_def)
  qed
qed

lemma example_tall_chunk:
  "\<exists>raw. build_raw [(5, 0), (7, 0)] 1 2 1 0 0 = Inr raw"
  using build_raw_succeeds [of "[(5, 0), (7, 0)]" 2 1 1 0 0] by simp

text \<open>
  Claim C6. The claim gives the biome plane the default value 1 wherever the world
  coordinate falls outside the footprint of the structure. The code writes
  \<^verbatim>\<open>flat[idx][0] if 0 <= idx < len(flat) else 1\<close>: it tests the index, not the coordinate.
  Below, a structure of size 1 x 2 x 1 with the runtime ids 5 (at \<open>y = 0\<close>) and 7 (at
  \<open>y = 1\<close>) is encoded into chunk (0, 0): the column \<open>x = 1\<close>, \<open>z = 0\<close> is outside the
  footprint (\<open>wx = 1\<close> is not below the width 1), but its index 1 is inside the flat
  array, and the biome byte is 7, the runtime id of the voxel above the only column,
  not 1.
\<close>

theorem C6_outside_footprint_not_default:
  "map_sum id (\<lambda>raw. raw ! (2 + nat ((2 + 15) div 16) * (4096 + 4096 + 2048) + 256 + (1 * 16 + 0)))
     (build_raw [(5, 0), (7, 0)] 1 2 1 0 0) = Inr 7 \<and>
   \<not> (0 * 16 + 1 < (1 :: int)) \<and> (7 :: int) \<noteq> 1 \<and>
   fst ([(5, 0), (7 :: int, 0 :: int)] ! nat (1 * (1 * 1) + 0 * 1 + 0)) = 7"
proof -
  from example_tall_chunk obtain raw where raw: "build_raw [(5, 0), (7, 0)] 1 2 1 0 0 = Inr raw"
    by blast
  have "raw ! (2 + nat ((2 + 15) div 16) * 10240 + 256 + (1 * 16 + 0))
          = biome_value [(5, 0), (7, 0)] 1 0 0 1 0"
    using build_raw_biome_nth [OF raw, of 1 0] by simp
  then have "raw ! (2 + nat ((2 + 15) div 16) * 10240 + 256 + (1 * 16 + 0)) = 7"
    by (simp add: biome_value_def)
  then show ?thesis using raw by simp
qed

section \<open>Index entries appended\<close>

lemma unpack_u16:
  assumes "0 \<le> v" "v \<le> 65535"
  shows "struct_unpack (Fmt_H # cs) (le_bytes 2 v @ rest) = v # struct_unpack cs rest"
proof -
  have "le_int (le_bytes 2 v) = v" unfolding le_int_le_bytes using assms by simp
  then show ?thesis by (simp add: Let_def del: le_bytes.simps)
qed

lemma bitfield_range:
  "0 \<le> (if v < 0 then (v + push_bit 14 1) AND 0x3FFF else v AND 0x3FFF)"
  "(if v < 0 then (v + push_bit 14 1) AND 0x3FFF else v AND 0x3FFF) \<le> (65535 :: int)"
proof -
  have "0 \<le> w mod 16384 \<and> w mod 16384 \<le> 65535" for w :: int
  proof -
    have "w mod 16384 < 16384" by simp
    then show ?thesis by simp
  qed
  then show "0 \<le> (if v < 0 then (v + push_bit 14 1) AND 0x3FFF else v AND 0x3FFF)"
    and "(if v < 0 then (v + push_bit 14 1) AND 0x3FFF else v AND 0x3FFF) \<le> (65535 :: int)"
    unfolding and_3FFF by simp_all
qed

lemma update_index_entry_eq:
  "update_index_entry (Some old) x z slot_number =
     (if 0 \<le> slot_number \<and> slot_number \<le> 65535
      then Inr (Some (old @
             le_bytes 2 (if x < 0 then (x + push_bit 14 1) AND 0x3FFF else x AND 0x3FFF) @
             le_bytes 2 (if z < 0 then (z + push_bit 14 1) AND 0x3FFF else z AND 0x3FFF) @
             le_bytes 2 slot_number @ le_bytes 2 0 @ le_bytes 2 0x20FF @ le_bytes 2 0xA @
             le_bytes 2 0x1 @ le_bytes 2 0x8000))
      else Inl StructError)"
  using bitfield_range [of x] bitfield_range [of z]
  unfolding update_index_entry_def CDBEntry_pack_def CDBEntry_init_def Let_def
  by (simp del: le_bytes.simps push_bit_of_1)

lemma unpack_index_entry:
  assumes "0 \<le> a" "a \<le> 65535" "0 \<le> b" "b \<le> 65535" "0 \<le> c" "c \<le> 65535"
  shows "struct_unpack [Fmt_H, Fmt_H, Fmt_H, Fmt_H, Fmt_H, Fmt_H, Fmt_H, Fmt_H]
           (le_bytes 2 a @ le_bytes 2 b @ le_bytes 2 c @ le_bytes 2 0 @ le_bytes 2 0x20FF @
            le_bytes 2 0xA @ le_bytes 2 0x1 @ le_bytes 2 0x8000) =
         [a, b, c, 0, 0x20FF, 0xA, 0x1, 0x8000]"
proof -
  have "struct_unpack [Fmt_H, Fmt_H, Fmt_H, Fmt_H, Fmt_H, Fmt_H, Fmt_H, Fmt_H]
           (le_bytes 2 a @ le_bytes 2 b @ le_bytes 2 c @ le_bytes 2 0 @ le_bytes 2 0x20FF @
            le_bytes 2 0xA @ le_bytes 2 0x1 @ le_bytes 2 0x8000 @ []) =
         [a, b, c, 0, 0x20FF, 0xA, 0x1, 0x8000]"
    unfolding unpack_u16 [OF assms(1,2)] unpack_u16 [OF assms(3,4)] unpack_u16 [OF assms(5,6)]
    by (simp add: unpack_u16 le_int_le_bytes del: le_bytes.simps)
  then show ?thesis by simp
qed


text \<open>
  Claim C7, as amended. When \<^verbatim>\<open>index.cdb\<close> exists and the slot number fits an unsigned
  16-bit field (0 to 65535), \<^verbatim>\<open>update_index_entry\<close> appends exactly one 16-byte record
  whose eight fields are \<open>(x_bitfield, z_bitfield, slot_number, 0, 0x20FF, 0xA, 0x1, 0x8000)\<close>,
  with \<open>x_bitfield = (x + 2^14) & 0x3FFF\<close> for \<open>x < 0\<close> and \<open>x & 0x3FFF\<close> otherwise
  (the same for \<open>z\<close>); the bytes already in the file stay as they are, and two calls
  in sequence leave two such records in call order, each with its own slot number.
\<close>

theorem C7_index_records_appended:
  assumes "0 \<le> slot1" "slot1 \<le> 65535" "0 \<le> slot2" "slot2 \<le> 65535"
  shows "\<exists>record1 record2.
     update_index_entry (Some old) x1 z1 slot1 = Inr (Some (old @ record1)) \<and>
     update_index_entry (Some (old @ record1)) x2 z2 slot2 = Inr (Some (old @ record1 @ record2)) \<and>
     length record1 = 16 \<and> length record2 = 16 \<and>
     struct_unpack [Fmt_H, Fmt_H, Fmt_H, Fmt_H, Fmt_H, Fmt_H, Fmt_H, Fmt_H] record1 =
       [if x1 < 0 then (x1 + 2 ^ 14) AND 0x3FFF else x1 AND 0x3FFF,
        if z1 < 0 then (z1 + 2 ^ 14) AND 0x3FFF else z1 AND 0x3FFF,
        slot1, 0, 0x20FF, 0xA, 0x1, 0x8000] \<and>
     struct_unpack [Fmt_H, Fmt_H, Fmt_H, Fmt_H, Fmt_H, Fmt_H, Fmt_H, Fmt_H] record2 =
       [if x2 < 0 then (x2 + 2 ^ 14) AND 0x3FFF else x2 AND 0x3FFF,
        if z2 < 0 then (z2 + 2 ^ 14) AND 0x3FFF else z2 AND 0x3FFF,
        slot2, 0, 0x20FF, 0xA, 0x1, 0x8000]"
proof -
  define bf :: "int \<Rightarrow> int" where
    "bf v = (if v < 0 then (v + push_bit 14 1) AND 0x3FFF else v AND 0x3FFF)" for v
  define rec :: "int \<Rightarrow> int \<Rightarrow> int \<Rightarrow> bytes" where
    "rec x z s = le_bytes 2 (bf x) @ le_bytes 2 (bf z) @ le_bytes 2 s @ le_bytes 2 0 @
       le_bytes 2 0x20FF @ le_bytes 2 0xA @ le_bytes 2 0x1 @ le_bytes 2 0x8000" for x z s
  have bf: "0 \<le> bf v" "bf v \<le> 65535" for v
    unfolding bf_def by (rule bitfield_range)+
  have bf2: "bf v = (if v < 0 then (v + 2 ^ 14) AND 0x3FFF else v AND 0x3FFF)" for v
    by (simp add: bf_def)
  have u: "update_index_entry (Some old') x z s = Inr (Some (old' @ rec x z s))"
    if "0 \<le> s" "s \<le> 65535" for old' x z s
    unfolding update_index_entry_eq rec_def bf_def using that by simp
  have l: "length (rec x z s) = 16" for x z s
    by (simp add: rec_def del: le_bytes.simps)
  have d: "struct_unpack [Fmt_H, Fmt_H, Fmt_H, Fmt_H, Fmt_H, Fmt_H, Fmt_H, Fmt_H] (rec x z s) =
       [bf x, bf z, s, 0, 0x20FF, 0xA, 0x1, 0x8000]"
    if "0 \<le> s" "s \<le> 65535" for x z s
    unfolding rec_def using bf [of x] bf [of z] that by (intro unpack_index_entry)
  have "update_index_entry (Some old) x1 z1 slot1 = Inr (Some (old @ rec x1 z1 slot1))"
    using assms(1,2) by (rule u)
  moreover have "update_index_entry (Some (old @ rec x1 z1 slot1)) x2 z2 slot2 =
      Inr (Some (old @ rec x1 z1 slot1 @ rec x2 z2 slot2))"
    using u [OF assms(3,4), of "old @ rec x1 z1 slot1" x2 z2] by simp
  ultimately show ?thesis
    using l d [OF assms(1,2), of x1 z1] d [OF assms(3,4), of x2 z2]
    unfolding bf2 by blast
qed

theorem C7_index_records_appended_witness:
  "\<exists>record1 record2.
     update_index_entry (Some [1, 2, 3]) (- 1) 5 7 = Inr (Some ([1, 2, 3] @ record1)) \<and>
     update_index_entry (Some ([1, 2, 3] @ record1)) 0 (- 8192) 8 =
       Inr (Some ([1, 2, 3] @ record1 @ record2)) \<and>
     length record1 = 16 \<and> length record2 = 16 \<and>
     struct_unpack [Fmt_H, Fmt_H, Fmt_H, Fmt_H, Fmt_H, Fmt_H, Fmt_H, Fmt_H] record1 =
       [16383, 5, 7, 0, 0x20FF, 0xA, 0x1, 0x8000] \<and>
     struct_unpack [Fmt_H, Fmt_H, Fmt_H, Fmt_H, Fmt_H, Fmt_H, Fmt_H, Fmt_H] record2 =
       [0, 8192, 8, 0, 0x20FF, 0xA, 0x1, 0x8000]"
  using C7_index_records_appended [of 7 8 "[1, 2, 3]" "- 1" 5 0 "- 8192"]
  by (simp add: and_3FFF del: struct_unpack.simps)

text \<open>
  With the slot number 65536 and an existing index file the call raises
  \<^verbatim>\<open>struct.error\<close> and appends nothing.
\<close>

theorem C7_slot_out_of_range_counterexample:
  "update_index_entry (Some []) 0 0 65536 = Inl StructError"
  by (simp add: update_index_entry_eq)

section \<open>Insertion\<close>

lemma for_each_no_op: "for_each (\<lambda>i s. Inr s) xs s = Inr s"
  by (induction xs) simp_all

lemma insert_chunk_eq:
  assumes "list_getitem size' 2 = Inr size2"
  shows "insert_chunk compress flat size' start_x start_z subsize chunks_x cz cx st =
         insert_chunk_without_block_loop compress flat size' start_x start_z subsize chunks_x cz cx st"
proof -
  from assms have "2 < length size'"
    by (simp add: list_getitem_def Let_def split: if_splits)
  then have g: "list_getitem size' 1 = Inr (size' ! 1)"
    by (simp add: list_getitem_def Let_def)
  obtain f index slot_number where st: "st = (f, index, slot_number)"
    by (cases st) auto
  show ?thesis
    unfolding insert_chunk_def insert_chunk_without_block_loop_def st
    by (simp add: g for_each_no_op Let_def)
qed

text \<open>
  Claim C9. The per-block loop in the body of the chunk loops, and the computation of
  \<^verbatim>\<open>block_count\<close> before it, have no effect: for every input, \<^verbatim>\<open>insert_structure\<close>
  gives the same result (the same files on success, the same error and the same files
  on failure) as the routine without them.
\<close>

theorem C9_block_loop_is_dead:
  "insert_structure compress fs flat size' start_x start_z slot_number =
   insert_structure_without_block_loop compress fs flat size' start_x start_z slot_number"
proof (cases "list_getitem size' 2")
  case (Inl e)
  then show ?thesis
    unfolding insert_structure_def insert_structure_without_block_loop_def
    by (simp split: option.splits sum.splits list.splits)
next
  case (Inr size2)
  have "insert_chunk compress flat size' start_x start_z subsize chunks_x cz =
        insert_chunk_without_block_loop compress flat size' start_x start_z subsize chunks_x cz"
    for subsize chunks_x cz
    by (intro ext) (rule insert_chunk_eq [OF Inr])
  then show ?thesis
    unfolding insert_structure_def insert_structure_without_block_loop_def
    by (simp split: option.splits sum.splits list.splits)
qed

lemma read_file_header_eq:
  "read_file_header f =
     (if length f < 20 then Inl BadFileHeader
      else Inr [le_int (take 2 f), le_int (take 2 (drop 2 f)), le_int (take 4 (drop 4 f)),
                le_int (take 4 (drop 8 f)), le_int (take 4 (drop 12 f)),
                le_int (take 4 (drop 16 f))])"
proof (cases "length f < 20")
  case True
  then show ?thesis
    by (simp add: read_file_header_def calcsize_def hdr_fmt_def Let_def)
next
  case False
  then have m: "min (length f) 20 = 20" by simp
  have t: "take a (drop b (take 20 f)) = take a (drop b f)" if "a + b \<le> 20" for a b
    using that by (simp add: drop_take min_def)
  have t0: "take a (take 20 f) = take a f" if "a \<le> 20" for a
    using that by (simp add: min_def)
  have t4: "drop 16 (take 20 f) = take 4 (drop 16 f)" by (simp add: drop_take)
  show ?thesis
    using False
    by (simp add: read_file_header_def calcsize_def hdr_fmt_def Let_def m t t0 t4)
qed


lemma product_py_range_number:
  assumes "i < length (List.product (py_range m) (py_range n))"
  shows "fst (List.product (py_range m) (py_range n) ! i) * n
           + snd (List.product (py_range m) (py_range n) ! i) = int i"
proof -
  define q where "q = nat n"
  from assms have lt: "i < nat m * q" by (simp add: q_def)
  then have q: "0 < q" by (cases q) simp_all
  then have nq: "n = int q" by (simp add: q_def)
  have a: "i div q < nat m" using lt q by (simp add: less_mult_imp_div_less)
  have b: "i mod q < q" using q by simp
  have "List.product (py_range m) (py_range (int q)) ! i
          = (py_range m ! (i div q), py_range (int q) ! (i mod q))"
    using lt by (simp add: product_nth)
  also have "\<dots> = (int (i div q), int (i mod q))"
    using a b by simp
  finally have p: "List.product (py_range m) (py_range (int q)) ! i
          = (int (i div q), int (i mod q))" .
  have "i div q * q + i mod q = i" by simp
  then have "int (i div q * q + i mod q) = int i" by (rule arg_cong)
  then have "int (i div q) * int q + int (i mod q) = int i"
    by (simp only: of_nat_add of_nat_mult)
  then show ?thesis unfolding nq p by simp
qed

lemma insert_chunk_without_block_loop_Inr:
  "insert_chunk_without_block_loop compress flat size' start_x start_z subsize chunks_x cz cx
       (f, index, slot_number) = Inr r \<longleftrightarrow>
     (\<exists>f1 index1.
        write_chunk_to_subfile compress f (20 + (cz * chunks_x + cx) * subsize)
          (start_x + cx) (start_z + cz) flat size' = Inr f1 \<and>
        update_index_entry index (start_x + cx) (start_z + cz) slot_number = Inr index1 \<and>
        r = (f1, index1, slot_number + 1))"
  by (auto simp: insert_chunk_without_block_loop_def Let_def split: sum.splits)

lemma slot_threading:
  assumes num: "\<And>i. i < length ps \<Longrightarrow> fst (ps ! i) * chunks_x + snd (ps ! i) = int i"
    and run: "for_each (\<lambda>p. insert_chunk_without_block_loop compress flat size' start_x start_z
                  subsize chunks_x (fst p) (snd p))
              (drop k ps) (f, index, slot_number + int k) = Inr (f', index', slot')"
  shows "for_each (\<lambda>(cz, cx) (f, index).
            and_then (write_chunk_to_subfile compress f (20 + (cz * chunks_x + cx) * subsize)
                        (start_x + cx) (start_z + cz) flat size') (\<lambda>f.
            and_then (update_index_entry index (start_x + cx) (start_z + cz)
                        (slot_number + (cz * chunks_x + cx))) (\<lambda>index.
            Inr (f, index))))
          (drop k ps) (f, index) = Inr (f', index')"
  using run
proof (induction "length ps - k" arbitrary: k f index)
  case 0
  then have "drop k ps = []" by simp
  with "0.prems" show ?case by simp
next
  case (Suc n)
  then have k: "k < length ps" by simp
  obtain cz cx where p: "ps ! k = (cz, cx)" by (cases "ps ! k") auto
  have d: "drop k ps = (cz, cx) # drop (Suc k) ps"
    using k p by (simp add: Cons_nth_drop_Suc [symmetric])
  have nk: "cz * chunks_x + cx = int k" using num [OF k] p by simp
  from Suc.prems obtain r where
    r: "insert_chunk_without_block_loop compress flat size' start_x start_z
          subsize chunks_x cz cx (f, index, slot_number + int k) = Inr r"
    and rest: "for_each (\<lambda>p. insert_chunk_without_block_loop compress flat size' start_x start_z
                  subsize chunks_x (fst p) (snd p))
              (drop (Suc k) ps) r = Inr (f', index', slot')"
    unfolding d by (auto split: sum.splits)
  from r obtain f1 index1 where
    w: "write_chunk_to_subfile compress f (20 + (cz * chunks_x + cx) * subsize)
          (start_x + cx) (start_z + cz) flat size' = Inr f1"
    and u: "update_index_entry index (start_x + cx) (start_z + cz) (slot_number + int k) = Inr index1"
    and r1: "r = (f1, index1, slot_number + int k + 1)"
    unfolding insert_chunk_without_block_loop_Inr by blast
  have s: "slot_number + int k + 1 = slot_number + int (Suc k)" by simp
  have n: "n = length ps - Suc k" using Suc.hyps(2) by simp
  have "for_each (\<lambda>(cz, cx) (f, index).
            and_then (write_chunk_to_subfile compress f (20 + (cz * chunks_x + cx) * subsize)
                        (start_x + cx) (start_z + cz) flat size') (\<lambda>f.
            and_then (update_index_entry index (start_x + cx) (start_z + cz)
                        (slot_number + (cz * chunks_x + cx))) (\<lambda>index.
            Inr (f, index))))
          (drop (Suc k) ps) (f1, index1) = Inr (f', index')"
    using Suc.hyps(1) [OF n] rest unfolding r1 s by blast
  then show ?case unfolding d using w u by (simp add: nk)
qed

lemma insert_structure_eq:
  assumes "cdb_file fs = Some f" "20 \<le> length f"
  shows "insert_structure compress fs flat [width, height, length'] start_x start_z slot_number =
      (case for_each (\<lambda>p. insert_chunk_without_block_loop compress flat [width, height, length']
                  start_x start_z (le_int (take 4 (drop 12 f))) ((width + 15) div 16) (fst p) (snd p))
              (List.product (py_range ((length' + 15) div 16)) (py_range ((width + 15) div 16)))
              (f, index_file fs, slot_number) of
         Inl e \<Rightarrow> Inl e
       | Inr (f, index, slot_number) \<Rightarrow> Inr \<lparr>cdb_file = Some f, index_file = index\<rparr>)"
proof -
  have g0: "list_getitem [width, height, length'] 0 = Inr width"
    and g2: "list_getitem [width, height, length'] 2 = Inr length'"
    by (simp_all add: list_getitem_def)
  have e: "insert_chunk compress flat [width, height, length'] start_x start_z subsize chunks_x cz =
        insert_chunk_without_block_loop compress flat [width, height, length'] start_x start_z
          subsize chunks_x cz"
    for subsize chunks_x cz
    by (intro ext) (rule insert_chunk_eq [OF g2])
  have h: "read_file_header f =
      Inr [le_int (take 2 f), le_int (take 2 (drop 2 f)), le_int (take 4 (drop 4 f)),
           le_int (take 4 (drop 8 f)), le_int (take 4 (drop 12 f)), le_int (take 4 (drop 16 f))]"
    unfolding read_file_header_eq using assms(2) by simp
  have "insert_structure compress fs flat [width, height, length'] start_x start_z slot_number =
      (case for_each (\<lambda>cz. for_each (insert_chunk_without_block_loop compress flat
                  [width, height, length'] start_x start_z (le_int (take 4 (drop 12 f)))
                  ((width + 15) div 16) cz)
                  (py_range ((width + 15) div 16)))
              (py_range ((length' + 15) div 16)) (f, index_file fs, slot_number) of
         Inl e \<Rightarrow> Inl e
       | Inr (f, index, slot_number) \<Rightarrow> Inr \<lparr>cdb_file = Some f, index_file = index\<rparr>)"
    by (simp add: insert_structure_def assms(1) h g0 g2 e Let_def)
  then show ?thesis unfolding for_each_product .
qed

lemma insert_structure_Inr:
  assumes "insert_structure compress fs flat [width, height, length'] start_x start_z slot_number = Inr fs'"
  shows "\<exists>f f' index' slot'. cdb_file fs = Some f \<and> 20 \<le> length f \<and>
     for_each (\<lambda>p. insert_chunk_without_block_loop compress flat [width, height, length']
                  start_x start_z (le_int (take 4 (drop 12 f))) ((width + 15) div 16) (fst p) (snd p))
       (List.product (py_range ((length' + 15) div 16)) (py_range ((width + 15) div 16)))
       (f, index_file fs, slot_number) = Inr (f', index', slot') \<and>
     fs' = \<lparr>cdb_file = Some f', index_file = index'\<rparr>"
proof -
  from assms obtain f where f: "cdb_file fs = Some f"
    unfolding insert_structure_def by (cases "cdb_file fs") auto
  from assms have len: "20 \<le> length f"
    unfolding insert_structure_def f read_file_header_eq by (cases "length f < 20") auto
  from assms obtain f' index' slot' where
    "for_each (\<lambda>p. insert_chunk_without_block_loop compress flat [width, height, length']
                  start_x start_z (le_int (take 4 (drop 12 f))) ((width + 15) div 16) (fst p) (snd p))
       (List.product (py_range ((length' + 15) div 16)) (py_range ((width + 15) div 16)))
       (f, index_file fs, slot_number) = Inr (f', index', slot')"
    and fs': "fs' = \<lparr>cdb_file = Some f', index_file = index'\<rparr>"
    unfolding insert_structure_eq [OF f len] by (auto split: sum.splits)
  with f len show ?thesis by blast
qed

lemma index_entries_of_run:
  assumes "for_each (\<lambda>(cz, cx) (f, index).
            and_then (write_chunk_to_subfile compress f (20 + (cz * chunks_x + cx) * subsize)
                        (start_x + cx) (start_z + cz) flat size') (\<lambda>f.
            and_then (update_index_entry index (start_x + cx) (start_z + cz)
                        (slot_number + (cz * chunks_x + cx))) (\<lambda>index.
            Inr (f, index))))
          ps (f, Some old) = Inr (f', index')"
  shows "\<exists>records. index' = Some (old @ concat records) \<and> length records = length ps \<and>
     (\<forall>i < length ps. length (records ! i) = 16 \<and>
        struct_unpack [Fmt_H, Fmt_H, Fmt_H, Fmt_H, Fmt_H, Fmt_H, Fmt_H, Fmt_H] (records ! i) =
          [if start_x + snd (ps ! i) < 0 then (start_x + snd (ps ! i) + 2 ^ 14) AND 0x3FFF
           else (start_x + snd (ps ! i)) AND 0x3FFF,
           if start_z + fst (ps ! i) < 0 then (start_z + fst (ps ! i) + 2 ^ 14) AND 0x3FFF
           else (start_z + fst (ps ! i)) AND 0x3FFF,
           slot_number + (fst (ps ! i) * chunks_x + snd (ps ! i)),
           0, 0x20FF, 0xA, 0x1, 0x8000])"
  using assms
proof (induction ps arbitrary: f old)
  case Nil
  then show ?case by simp
next
  case (Cons p ps)
  obtain cz cx where p: "p = (cz, cx)" by (cases p) auto
  define s where "s = slot_number + (cz * chunks_x + cx)"
  define bf :: "int \<Rightarrow> int" where
    "bf v = (if v < 0 then (v + push_bit 14 1) AND 0x3FFF else v AND 0x3FFF)" for v
  define rcd where
    "rcd = le_bytes 2 (bf (start_x + cx)) @ le_bytes 2 (bf (start_z + cz)) @ le_bytes 2 s @
       le_bytes 2 0 @ le_bytes 2 0x20FF @ le_bytes 2 0xA @ le_bytes 2 0x1 @ le_bytes 2 0x8000"
  from Cons.prems obtain f1 index1 where
    u: "update_index_entry (Some old) (start_x + cx) (start_z + cz) s = Inr index1"
    and rest: "for_each (\<lambda>(cz, cx) (f, index).
            and_then (write_chunk_to_subfile compress f (20 + (cz * chunks_x + cx) * subsize)
                        (start_x + cx) (start_z + cz) flat size') (\<lambda>f.
            and_then (update_index_entry index (start_x + cx) (start_z + cz)
                        (slot_number + (cz * chunks_x + cx))) (\<lambda>index.
            Inr (f, index))))
          ps (f1, index1) = Inr (f', index')"
    unfolding p s_def by (auto simp: and_then_Inr_iff split: sum.splits)
  from u have sr: "0 \<le> s" "s \<le> 65535" and i1: "index1 = Some (old @ rcd)"
    unfolding update_index_entry_eq rcd_def bf_def by (simp_all split: if_splits)
  from Cons.IH [OF rest [unfolded i1]] obtain records where
    r: "index' = Some ((old @ rcd) @ concat records)" "length records = length ps"
      "\<forall>i < length ps. length (records ! i) = 16 \<and>
        struct_unpack [Fmt_H, Fmt_H, Fmt_H, Fmt_H, Fmt_H, Fmt_H, Fmt_H, Fmt_H] (records ! i) =
          [if start_x + snd (ps ! i) < 0 then (start_x + snd (ps ! i) + 2 ^ 14) AND 0x3FFF
           else (start_x + snd (ps ! i)) AND 0x3FFF,
           if start_z + fst (ps ! i) < 0 then (start_z + fst (ps ! i) + 2 ^ 14) AND 0x3FFF
           else (start_z + fst (ps ! i)) AND 0x3FFF,
           slot_number + (fst (ps ! i) * chunks_x + snd (ps ! i)),
           0, 0x20FF, 0xA, 0x1, 0x8000]"
    by blast
  have bfr: "0 \<le> bf v" "bf v \<le> 65535" for v
    unfolding bf_def by (rule bitfield_range)+
  have bf2: "bf v = (if v < 0 then (v + 2 ^ 14) AND 0x3FFF else v AND 0x3FFF)" for v
    by (simp add: bf_def)
  have l: "length rcd = 16" by (simp add: rcd_def del: le_bytes.simps)
  have d: "struct_unpack [Fmt_H, Fmt_H, Fmt_H, Fmt_H, Fmt_H, Fmt_H, Fmt_H, Fmt_H] rcd =
       [bf (start_x + cx), bf (start_z + cz), s, 0, 0x20FF, 0xA, 0x1, 0x8000]"
    unfolding rcd_def using bfr [of "start_x + cx"] bfr [of "start_z + cz"] sr
    by (intro unpack_index_entry)
  have "\<forall>i < length (p # ps). length ((rcd # records) ! i) = 16 \<and>
        struct_unpack [Fmt_H, Fmt_H, Fmt_H, Fmt_H, Fmt_H, Fmt_H, Fmt_H, Fmt_H] ((rcd # records) ! i) =
          [if start_x + snd ((p # ps) ! i) < 0 then (start_x + snd ((p # ps) ! i) + 2 ^ 14) AND 0x3FFF
           else (start_x + snd ((p # ps) ! i)) AND 0x3FFF,
           if start_z + fst ((p # ps) ! i) < 0 then (start_z + fst ((p # ps) ! i) + 2 ^ 14) AND 0x3FFF
           else (start_z + fst ((p # ps) ! i)) AND 0x3FFF,
           slot_number + (fst ((p # ps) ! i) * chunks_x + snd ((p # ps) ! i)),
           0, 0x20FF, 0xA, 0x1, 0x8000]"
  proof (intro allI impI)
    fix i assume i: "i < length (p # ps)"
    show "length ((rcd # records) ! i) = 16 \<and>
        struct_unpack [Fmt_H, Fmt_H, Fmt_H, Fmt_H, Fmt_H, Fmt_H, Fmt_H, Fmt_H] ((rcd # records) ! i) =
          [if start_x + snd ((p # ps) ! i) < 0 then (start_x + snd ((p # ps) ! i) + 2 ^ 14) AND 0x3FFF
           else (start_x + snd ((p # ps) ! i)) AND 0x3FFF,
           if start_z + fst ((p # ps) ! i) < 0 then (start_z + fst ((p # ps) ! i) + 2 ^ 14) AND 0x3FFF
           else (start_z + fst ((p # ps) ! i)) AND 0x3FFF,
           slot_number + (fst ((p # ps) ! i) * chunks_x + snd ((p # ps) ! i)),
           0, 0x20FF, 0xA, 0x1, 0x8000]"
    proof (cases i)
      case 0
      show ?thesis unfolding 0 nth_Cons_0 p fst_conv snd_conv
        using l d unfolding bf2 s_def by simp
    next
      case (Suc j)
      then have "j < length ps" using i by simp
      with r(3) show ?thesis unfolding Suc nth_Cons_Suc by blast
    qed
  qed
  moreover have "index' = Some (old @ concat (rcd # records))" using r(1) by simp
  moreover have "length (rcd # records) = length (p # ps)" using r(2) by simp
  ultimately show ?case by blast
qed

lemma product_py_range_nth_divmod:
  assumes "i < nat m * nat n"
  shows "List.product (py_range m) (py_range n) ! i = (int (i div nat n), int (i mod nat n))"
proof -
  from assms have n: "0 < nat n" by (cases "nat n") simp_all
  have a: "i div nat n < nat m" using assms n by (simp add: less_mult_imp_div_less)
  have b: "i mod nat n < nat n" using n by simp
  have "List.product (py_range m) (py_range n) ! i
          = (py_range m ! (i div nat n), py_range n ! (i mod nat n))"
    using assms by (simp add: product_nth)
  then show ?thesis using a b by simp
qed

lemma py_range_1: "py_range 1 = [0]"
  by code_simp

lemma one_chunk: "0 < (w :: int) \<Longrightarrow> w \<le> 16 \<Longrightarrow> (w + 15) div 16 = 1"
  by simp

text \<open>
  Claim C8, as amended. For every insertion that completes, with
  \<open>chunks_x = ceil(width / 16)\<close> and \<open>chunks_z = ceil(length / 16)\<close>, the files afterwards
  are those obtained by running, for \<open>cz\<close> in \<open>[0, chunks_z)\<close> outermost and \<open>cx\<close> in
  \<open>[0, chunks_x)\<close> innermost, \<^verbatim>\<open>write_chunk_to_subfile\<close> at offset
  \<open>20 + (cz * chunks_x + cx) * subfile_size\<close> with chunk coordinates
  \<open>(start_x + cx, start_z + cz)\<close> and then \<^verbatim>\<open>update_index_entry\<close> for the same coordinates
  with slot number \<open>slot_number + (cz * chunks_x + cx)\<close>: the given value for the first
  chunk, one more for each following chunk. \<open>subfile_size\<close> is the unsigned 32-bit
  field at bytes 12 to 15 of the database header. When \<^verbatim>\<open>index.cdb\<close> exists, it grows by
  exactly one 16-byte entry per chunk, in that order, the \<open>k\<close>-th with the coordinates of
  the \<open>k\<close>-th chunk and slot number \<open>slot_number + k\<close>; when it does not exist, no entry is
  written. For a structure with \<open>0 < width \<le> 16\<close> and \<open>0 < length \<le> 16\<close> there is exactly
  one chunk record, written at offset 20 for \<open>(start_x, start_z)\<close>, and one call of
  \<^verbatim>\<open>update_index_entry\<close> for \<open>(start_x, start_z)\<close> with the given slot number.
\<close>

theorem C8_insertion_loop:
  assumes "insert_structure compress fs flat [width, height, length'] start_x start_z slot_number
             = Inr fs'"
  shows "\<exists>db db'. cdb_file fs = Some db \<and> cdb_file fs' = Some db' \<and>
     for_each (\<lambda>(cz, cx) (f, index).
            and_then (write_chunk_to_subfile compress f
                        (20 + (cz * ((width + 15) div 16) + cx) * le_int (take 4 (drop 12 db)))
                        (start_x + cx) (start_z + cz) flat [width, height, length']) (\<lambda>f.
            and_then (update_index_entry index (start_x + cx) (start_z + cz)
                        (slot_number + (cz * ((width + 15) div 16) + cx))) (\<lambda>index.
            Inr (f, index))))
        (List.product (py_range ((length' + 15) div 16)) (py_range ((width + 15) div 16)))
        (db, index_file fs) = Inr (db', index_file fs') \<and>
     (index_file fs = None \<longrightarrow> index_file fs' = None) \<and>
     (\<forall>old. index_file fs = Some old \<longrightarrow>
        (\<exists>records. index_file fs' = Some (old @ concat records) \<and>
           length records = nat ((length' + 15) div 16) * nat ((width + 15) div 16) \<and>
           (\<forall>k < nat ((length' + 15) div 16) * nat ((width + 15) div 16).
              length (records ! k) = 16 \<and>
              struct_unpack [Fmt_H, Fmt_H, Fmt_H, Fmt_H, Fmt_H, Fmt_H, Fmt_H, Fmt_H] (records ! k) =
                [if start_x + int (k mod nat ((width + 15) div 16)) < 0
                 then (start_x + int (k mod nat ((width + 15) div 16)) + 2 ^ 14) AND 0x3FFF
                 else (start_x + int (k mod nat ((width + 15) div 16))) AND 0x3FFF,
                 if start_z + int (k div nat ((width + 15) div 16)) < 0
                 then (start_z + int (k div nat ((width + 15) div 16)) + 2 ^ 14) AND 0x3FFF
                 else (start_z + int (k div nat ((width + 15) div 16))) AND 0x3FFF,
                 slot_number + int k, 0, 0x20FF, 0xA, 0x1, 0x8000]))) \<and>
     (0 < width \<and> width \<le> 16 \<and> 0 < length' \<and> length' \<le> 16 \<longrightarrow>
        write_chunk_to_subfile compress db 20 start_x start_z flat [width, height, length']
          = Inr db' \<and>
        take 4 (drop 20 db') = le_bytes 4 MAGIC_CDB \<and>
        update_index_entry (index_file fs) start_x start_z slot_number = Inr (index_file fs'))"
proof -
  define chx where "chx = (width + 15) div 16"
  define chz where "chz = (length' + 15) div 16"
  define P where "P = List.product (py_range chz) (py_range chx)"
  from insert_structure_Inr [OF assms] obtain db db' index' slot' where
    db: "cdb_file fs = Some db"
    and run: "for_each (\<lambda>p. insert_chunk_without_block_loop compress flat [width, height, length']
                  start_x start_z (le_int (take 4 (drop 12 db))) chx (fst p) (snd p))
              P (db, index_file fs, slot_number) = Inr (db', index', slot')"
    and fs': "fs' = \<lparr>cdb_file = Some db', index_file = index'\<rparr>"
    unfolding chx_def chz_def P_def by blast
  define step where "step = (\<lambda>(cz, cx) (f, index).
            and_then (write_chunk_to_subfile compress f
                        (20 + (cz * chx + cx) * le_int (take 4 (drop 12 db)))
                        (start_x + cx) (start_z + cz) flat [width, height, length']) (\<lambda>f.
            and_then (update_index_entry index (start_x + cx) (start_z + cz)
                        (slot_number + (cz * chx + cx))) (\<lambda>index.
            Inr (f, index))))"
  have num: "fst (P ! i) * chx + snd (P ! i) = int i" if "i < length P" for i
    using that unfolding P_def by (rule product_py_range_number)
  have lenP: "length P = nat chz * nat chx" by (simp add: P_def)
  have run': "for_each step P (db, index_file fs) = Inr (db', index')"
    unfolding step_def
    using slot_threading [where k = 0 and ps = P, OF num] run by simp
  have none: "index' = None" if "index_file fs = None"
  proof -
    have "for_each step ps (f, None) = Inr (f', i') \<Longrightarrow> i' = None" for ps f f' i'
    proof (induction ps arbitrary: f)
      case Nil
      then show ?case by simp
    next
      case (Cons p ps)
      obtain cz cx where p: "p = (cz, cx)" by (cases p) auto
      from Cons.prems obtain f1 where "for_each step ps (f1, None) = Inr (f', i')"
        unfolding p step_def
        by (auto simp: and_then_Inr_iff update_index_entry_def split: sum.splits)
      then show ?case by (rule Cons.IH)
    qed
    then show ?thesis using run' that by simp
  qed
  have some: "\<exists>records. index' = Some (old @ concat records) \<and>
           length records = nat chz * nat chx \<and>
           (\<forall>k < nat chz * nat chx.
              length (records ! k) = 16 \<and>
              struct_unpack [Fmt_H, Fmt_H, Fmt_H, Fmt_H, Fmt_H, Fmt_H, Fmt_H, Fmt_H] (records ! k) =
                [if start_x + int (k mod nat chx) < 0
                 then (start_x + int (k mod nat chx) + 2 ^ 14) AND 0x3FFF
                 else (start_x + int (k mod nat chx)) AND 0x3FFF,
                 if start_z + int (k div nat chx) < 0
                 then (start_z + int (k div nat chx) + 2 ^ 14) AND 0x3FFF
                 else (start_z + int (k div nat chx)) AND 0x3FFF,
                 slot_number + int k, 0, 0x20FF, 0xA, 0x1, 0x8000])"
    if old: "index_file fs = Some old" for old
  proof -
    from index_entries_of_run [OF run' [unfolded step_def old]] obtain records where
      r: "index' = Some (old @ concat records)" "length records = length P"
      "\<forall>i < length P. length (records ! i) = 16 \<and>
        struct_unpack [Fmt_H, Fmt_H, Fmt_H, Fmt_H, Fmt_H, Fmt_H, Fmt_H, Fmt_H] (records ! i) =
          [if start_x + snd (P ! i) < 0 then (start_x + snd (P ! i) + 2 ^ 14) AND 0x3FFF
           else (start_x + snd (P ! i)) AND 0x3FFF,
           if start_z + fst (P ! i) < 0 then (start_z + fst (P ! i) + 2 ^ 14) AND 0x3FFF
           else (start_z + fst (P ! i)) AND 0x3FFF,
           slot_number + (fst (P ! i) * chx + snd (P ! i)),
           0, 0x20FF, 0xA, 0x1, 0x8000]"
      by blast
    have each: "length (records ! k) = 16 \<and>
              struct_unpack [Fmt_H, Fmt_H, Fmt_H, Fmt_H, Fmt_H, Fmt_H, Fmt_H, Fmt_H] (records ! k) =
                [if start_x + int (k mod nat chx) < 0
                 then (start_x + int (k mod nat chx) + 2 ^ 14) AND 0x3FFF
                 else (start_x + int (k mod nat chx)) AND 0x3FFF,
                 if start_z + int (k div nat chx) < 0
                 then (start_z + int (k div nat chx) + 2 ^ 14) AND 0x3FFF
                 else (start_z + int (k div nat chx)) AND 0x3FFF,
                 slot_number + int k, 0, 0x20FF, 0xA, 0x1, 0x8000]"
      if k: "k < nat chz * nat chx" for k
    proof -
      have kP: "k < length P" using k lenP by simp
      have pk: "P ! k = (int (k div nat chx), int (k mod nat chx))"
        unfolding P_def using k by (rule product_py_range_nth_divmod)
      have nk: "fst (P ! k) * chx + snd (P ! k) = int k" using kP by (rule num)
      from r(3) kP have "length (records ! k) = 16 \<and>
        struct_unpack [Fmt_H, Fmt_H, Fmt_H, Fmt_H, Fmt_H, Fmt_H, Fmt_H, Fmt_H] (records ! k) =
          [if start_x + snd (P ! k) < 0 then (start_x + snd (P ! k) + 2 ^ 14) AND 0x3FFF
           else (start_x + snd (P ! k)) AND 0x3FFF,
           if start_z + fst (P ! k) < 0 then (start_z + fst (P ! k) + 2 ^ 14) AND 0x3FFF
           else (start_z + fst (P ! k)) AND 0x3FFF,
           slot_number + (fst (P ! k) * chx + snd (P ! k)),
           0, 0x20FF, 0xA, 0x1, 0x8000]"
        by blast
      then show ?thesis unfolding nk unfolding pk fst_conv snd_conv .
    qed
    have l: "length records = nat chz * nat chx" using r(2) lenP by simp
    from r(1) l each show ?thesis by blast
  qed
  have one: "write_chunk_to_subfile compress db 20 start_x start_z flat [width, height, length']
          = Inr db' \<and>
        take 4 (drop 20 db') = le_bytes 4 MAGIC_CDB \<and>
        update_index_entry (index_file fs) start_x start_z slot_number = Inr index'"
    if "0 < width" "width \<le> 16" "0 < length'" "length' \<le> 16"
  proof -
    have "chx = 1" "chz = 1"
      unfolding chx_def chz_def using that by (simp_all add: one_chunk)
    then have "P = [(0, 0)]" by (simp add: P_def py_range_1)
    with run' have "step (0, 0) (db, index_file fs) = Inr (db', index')"
      by (simp split: sum.splits)
    then have w: "write_chunk_to_subfile compress db 20 start_x start_z flat
          [width, height, length'] = Inr db'"
      and u: "update_index_entry (index_file fs) start_x start_z slot_number = Inr index'"
      unfolding step_def by (auto simp: and_then_Inr_iff)
    from write_chunk_layout [OF w] have "take 4 (drop 20 db') = le_bytes 4 MAGIC_CDB"
      by auto
    with w u show ?thesis by simp
  qed
  have i': "index_file fs' = index'" and c': "cdb_file fs' = Some db'"
    unfolding fs' by simp_all
  show ?thesis
    unfolding chx_def [symmetric] chz_def [symmetric] P_def [symmetric] i'
  proof (rule exI [of _ db], rule exI [of _ db'], intro conjI)
    show "cdb_file fs = Some db" by (rule db)
    show "cdb_file fs' = Some db'" by (rule c')
    show "for_each (\<lambda>(cz, cx) (f, index).
            and_then (write_chunk_to_subfile compress f
                        (20 + (cz * chx + cx) * le_int (take 4 (drop 12 db)))
                        (start_x + cx) (start_z + cz) flat [width, height, length']) (\<lambda>f.
            and_then (update_index_entry index (start_x + cx) (start_z + cz)
                        (slot_number + (cz * chx + cx))) (\<lambda>index.
            Inr (f, index))))
        P (db, index_file fs) = Inr (db', index')"
      using run' unfolding step_def .
    show "index_file fs = None \<longrightarrow> index' = None" using none by blast
    show "\<forall>old. index_file fs = Some old \<longrightarrow>
        (\<exists>records. index' = Some (old @ concat records) \<and>
           length records = nat chz * nat chx \<and>
           (\<forall>k < nat chz * nat chx.
              length (records ! k) = 16 \<and>
              struct_unpack [Fmt_H, Fmt_H, Fmt_H, Fmt_H, Fmt_H, Fmt_H, Fmt_H, Fmt_H] (records ! k) =
                [if start_x + int (k mod nat chx) < 0
                 then (start_x + int (k mod nat chx) + 2 ^ 14) AND 0x3FFF
                 else (start_x + int (k mod nat chx)) AND 0x3FFF,
                 if start_z + int (k div nat chx) < 0
                 then (start_z + int (k div nat chx) + 2 ^ 14) AND 0x3FFF
                 else (start_z + int (k div nat chx)) AND 0x3FFF,
                 slot_number + int k, 0, 0x20FF, 0xA, 0x1, 0x8000]))"
      using some by blast
    show "0 < width \<and> width \<le> 16 \<and> 0 < length' \<and> length' \<le> 16 \<longrightarrow>
        write_chunk_to_subfile compress db 20 start_x start_z flat [width, height, length']
          = Inr db' \<and>
        take 4 (drop 20 db') = le_bytes 4 MAGIC_CDB \<and>
        update_index_entry (index_file fs) start_x start_z slot_number = Inr index'"
      using one by blast
  qed
qed

lemma one_chunk_insertion:
  assumes "cdb_file fs = Some db" "20 \<le> length db"
    and "0 < width" "width \<le> 16" "0 < length'" "length' \<le> 16"
    and w: "write_chunk_to_subfile compress db 20 start_x start_z flat [width, height, length']
              = Inr db'"
    and u: "update_index_entry (index_file fs) start_x start_z slot_number = Inr index'"
  shows "insert_structure compress fs flat [width, height, length'] start_x start_z slot_number
           = Inr \<lparr>cdb_file = Some db', index_file = index'\<rparr>"
proof -
  have c: "(width + 15) div 16 = 1" "(length' + 15) div 16 = 1"
    using assms(3-6) by (simp_all add: one_chunk)
  have "insert_chunk_without_block_loop compress flat [width, height, length'] start_x start_z
          (le_int (take 4 (drop 12 db))) 1 0 0 (db, index_file fs, slot_number)
        = Inr (db', index', slot_number + 1)"
    unfolding insert_chunk_without_block_loop_Inr using w u by simp
  then show ?thesis
    unfolding insert_structure_eq [OF assms(1,2)] c by (simp add: py_range_1)
qed

lemma example_insertion:
  "\<exists>db'. insert_structure (\<lambda>raw. raw) \<lparr>cdb_file = Some (replicate 20 0), index_file = index\<rparr>
            [(5, 3)] [1, 1, 1] 3 (- 2) 7 =
          (case update_index_entry index 3 (- 2) 7 of
             Inl e \<Rightarrow> Inl (e, \<lparr>cdb_file = Some db', index_file = index\<rparr>)
           | Inr index' \<Rightarrow> Inr \<lparr>cdb_file = Some db', index_file = index'\<rparr>) \<and>
          write_chunk_to_subfile (\<lambda>raw. raw) (replicate 20 0) 20 3 (- 2) [(5, 3)] [1, 1, 1] = Inr db'"
proof -
  obtain raw where raw: "build_raw [(5, 3)] 1 1 1 3 (- 2) = Inr raw"
    using build_raw_succeeds [of "[(5, 3)]" 1 1 1 3 "- 2"] by auto
  have l: "length raw = 10754" using build_raw_length [OF raw] by simp
  obtain db' where w: "write_chunk_to_subfile (\<lambda>raw. raw) (replicate 20 0) 20 3 (- 2)
      [(5, 3)] [1, 1, 1] = Inr db'"
    using write_chunk_succeeds [OF raw, of "\<lambda>raw. raw" 20 "replicate 20 0"] l by auto
  obtain index' where u: "update_index_entry index 3 (- 2) 7 = Inr index'"
    by (cases index) (simp_all add: update_index_entry_eq, simp add: update_index_entry_def)
  have "insert_structure (\<lambda>raw. raw) \<lparr>cdb_file = Some (replicate 20 0), index_file = index\<rparr>
            [(5, 3)] [1, 1, 1] 3 (- 2) 7 = Inr \<lparr>cdb_file = Some db', index_file = index'\<rparr>"
    by (rule one_chunk_insertion [where db = "replicate 20 0"]) (simp_all add: w u)
  with w u show ?thesis by auto
qed

theorem C8_insertion_loop_witness:
  "\<exists>fs' db' entry.
     insert_structure (\<lambda>raw. raw) \<lparr>cdb_file = Some (replicate 20 0), index_file = Some []\<rparr>
       [(5, 3)] [1, 1, 1] 3 (- 2) 7 = Inr fs' \<and>
     cdb_file fs' = Some db' \<and>
     write_chunk_to_subfile (\<lambda>raw. raw) (replicate 20 0) 20 3 (- 2) [(5, 3)] [1, 1, 1] = Inr db' \<and>
     take 4 (drop 20 db') = le_bytes 4 MAGIC_CDB \<and>
     index_file fs' = Some entry \<and> length entry = 16 \<and>
     struct_unpack [Fmt_H, Fmt_H, Fmt_H, Fmt_H, Fmt_H, Fmt_H, Fmt_H, Fmt_H] entry =
       [3, 16382, 7, 0, 0x20FF, 0xA, 0x1, 0x8000]"
proof -
  let ?fs = "\<lparr>cdb_file = Some (replicate 20 0), index_file = Some []\<rparr>"
  obtain fs' where ins: "insert_structure (\<lambda>raw. raw) ?fs [(5, 3)] [1, 1, 1] 3 (- 2) 7 = Inr fs'"
    using example_insertion [of "Some []"] by (auto simp: update_index_entry_eq)
  from C8_insertion_loop [OF ins] obtain db db' records where
    db: "cdb_file ?fs = Some db" and db': "cdb_file fs' = Some db'"
    and w: "write_chunk_to_subfile (\<lambda>raw. raw) db 20 3 (- 2) [(5, 3)] [1, 1, 1] = Inr db'"
    and m: "take 4 (drop 20 db') = le_bytes 4 MAGIC_CDB"
    and i: "index_file fs' = Some ([] @ concat records)"
    and len: "length records = nat ((1 + 15) div 16) * nat ((1 + 15) div 16)"
    and r: "\<forall>k < nat ((1 + 15) div 16) * nat ((1 + 15) div 16).
              length (records ! k) = 16 \<and>
              struct_unpack [Fmt_H, Fmt_H, Fmt_H, Fmt_H, Fmt_H, Fmt_H, Fmt_H, Fmt_H] (records ! k) =
                [if 3 + int (k mod nat ((1 + 15) div 16)) < 0
                 then (3 + int (k mod nat ((1 + 15) div 16)) + 2 ^ 14) AND 0x3FFF
                 else (3 + int (k mod nat ((1 + 15) div 16))) AND 0x3FFF,
                 if - 2 + int (k div nat ((1 + 15) div 16)) < 0
                 then (- 2 + int (k div nat ((1 + 15) div 16)) + 2 ^ 14) AND 0x3FFF
                 else (- 2 + int (k div nat ((1 + 15) div 16))) AND 0x3FFF,
                 7 + int k, 0, 0x20FF, 0xA, 0x1, 0x8000]"
    by (auto simp del: struct_unpack.simps)
  from len obtain entry where rs: "records = [entry]"
    by (cases records) (simp_all add: length_Suc_conv)
  from r have "length entry = 16 \<and>
      struct_unpack [Fmt_H, Fmt_H, Fmt_H, Fmt_H, Fmt_H, Fmt_H, Fmt_H, Fmt_H] entry =
       [3, 16382, 7, 0, 0x20FF, 0xA, 0x1, 0x8000]"
    unfolding rs by (simp add: and_3FFF del: struct_unpack.simps)
  moreover have "db = replicate 20 0" using db by simp
  ultimately show ?thesis using ins db' w m i rs by (auto simp del: struct_unpack.simps)
qed

text \<open>
  A structure of one chunk inserted next to a database without \<^verbatim>\<open>index.cdb\<close>: the
  insertion completes and no index entry is written.
\<close>

theorem C8_no_index_file_counterexample:
  "map_sum fst index_file
     (insert_structure (\<lambda>raw. raw) \<lparr>cdb_file = Some (replicate 20 0), index_file = None\<rparr>
        [(5, 3)] [1, 1, 1] 3 (- 2) 7) = Inr None"
  using example_insertion [of None] by (auto simp: update_index_entry_def)

section \<open>Structure decoder\<close>


lemma pair_case_Inr:
  assumes "(case xs of [a, b] \<Rightarrow> g a b | _ \<Rightarrow> Inl e) = Inr r"
  shows "\<exists>a b. xs = [a, b] \<and> g a b = Inr r"
proof (cases xs)
  case Nil
  with assms show ?thesis by simp
next
  case (Cons a ys)
  show ?thesis
  proof (cases ys)
    case Nil
    with assms Cons show ?thesis by simp
  next
    case (Cons b zs)
    with assms \<open>xs = a # ys\<close> show ?thesis by (cases zs) simp_all
  qed
qed

lemma triple_case_Inr:
  assumes "(case xs of [a, b, c] \<Rightarrow> g a b c | _ \<Rightarrow> Inl e) = Inr r"
  shows "\<exists>a b c. xs = [a, b, c] \<and> g a b c = Inr r"
proof (cases xs)
  case Nil
  with assms show ?thesis by simp
next
  case (Cons a ys)
  show ?thesis
  proof (cases ys)
    case Nil
    with assms Cons show ?thesis by simp
  next
    case (Cons b zs)
    show ?thesis
    proof (cases zs)
      case Nil
      with assms \<open>xs = a # ys\<close> \<open>ys = b # zs\<close> show ?thesis by simp
    next
      case (Cons c ws)
      with assms \<open>xs = a # ys\<close> \<open>ys = b # zs\<close> show ?thesis by (cases ws) simp_all
    qed
  qed
qed

lemma place_block_length:
  assumes "place_block env palmap width length' b flat = Inr flat'"
  shows "length flat' = length flat"
proof -
  from assms obtain x y z state where
    "(case get_block_id env (case palmap state of Some n \<Rightarrow> n | None \<Rightarrow> ''minecraft:air'') of
        [rid, meta] \<Rightarrow>
          (let idx = y * (width * length') + z * width + x
           in list_setitem flat idx (rid, meta))
      | _ \<Rightarrow> Inl ValueError) = Inr flat'"
    unfolding place_block_def by (auto simp: and_then_Inr_iff Let_def)
  from pair_case_Inr [OF this] obtain rid meta where
    "(let idx = y * (width * length') + z * width + x
      in list_setitem flat idx (rid, meta)) = Inr flat'"
    by blast
  then have "list_setitem flat (y * (width * length') + z * width + x) (rid, meta) = Inr flat'"
    by (simp add: Let_def)
  then show ?thesis by (rule list_setitem_length)
qed

lemma block_loop_length:
  assumes "for_each (place_block env palmap width length') bs flat = Inr flat'"
  shows "length flat' = length flat"
  by (rule for_each_preserves [where I = "\<lambda>s. length s = length flat", OF assms])
     (simp_all add: place_block_length)

lemma list_repeat_Inr:
  assumes "list_repeat env v n = Inr xs"
  shows "xs = replicate (nat n) v"
  using assms by (simp add: list_repeat_def split: if_splits)


text \<open>
  The test \<^verbatim>\<open>len(flat) != total\<close> at the end of the decoder compares the declared volume with
  the length of an array that was allocated with that volume and that the block loop never
  resizes: for a volume that is not negative it cannot fail, whatever the blocks are.
\<close>

lemma size_check_never_fires:
  fixes total :: int
  assumes "list_repeat env (0, 0) total = Inr flat0"
    and "for_each (place_block env palmap width length') bs flat0 = Inr flat"
    and "0 \<le> total"
  shows "int (length flat) = total"
  using block_loop_length [OF assms(2)] list_repeat_Inr [OF assms(1)] assms(3) by simp

lemma parse_nbt_structure_length:
  assumes "parse_nbt_structure env loaded = Inr (flat, size')"
  shows "\<exists>width height length'. size' = [width, height, length'] \<and>
           int (length flat) = width * height * length'"
proof -
  from assms obtain blocks sz palette where
    l: "load_fields env loaded = Inr (blocks, sz, palette)"
    unfolding parse_nbt_structure_def by (auto split: sum.splits)
  from assms obtain palmap where
    "(case sz of
        [width, height, length'] \<Rightarrow>
          (let total = width * height * length'
           in and_then (list_repeat env (0, 0) total) (\<lambda>flat.
              and_then (py_iter blocks) (\<lambda>bs.
              and_then (for_each (place_block env palmap width length') bs flat) (\<lambda>flat.
              if int (length flat) \<noteq> total then Inl SizeMismatch
              else Inr (flat, sz)))))
      | _ \<Rightarrow> Inl ValueError) = Inr (flat, size')"
    unfolding parse_nbt_structure_def l by (auto simp: and_then_Inr_iff)
  from triple_case_Inr [OF this] obtain width height length' where
    sz: "sz = [width, height, length']"
    and r: "(let total = width * height * length'
           in and_then (list_repeat env (0, 0) total) (\<lambda>flat.
              and_then (py_iter blocks) (\<lambda>bs.
              and_then (for_each (place_block env palmap width length') bs flat) (\<lambda>flat.
              if int (length flat) \<noteq> total then Inl SizeMismatch
              else Inr (flat, sz))))) = Inr (flat, size')"
    by blast
  from r have "size' = sz \<and> int (length flat) = width * height * length'"
    by (auto simp: and_then_Inr_iff Let_def split: if_splits)
  with sz show ?thesis by simp
qed

text \<open>
  Claim C4. The claim asks that a declared size which disagrees with the actual volume
  of the blocks is answered with \<^verbatim>\<open>ValueError("Size mismatch")\<close> and never with a silently
  truncated array. The code does not do this. Below, the four blocks of a 2 x 1 x 2
  structure are decoded under the declared size 1 x 1 x 3: the decoder returns an array
  of three voxels and no error (two blocks land on the same index). Under the declared
  size 1 x 1 x 1 the two blocks of a 2 x 1 x 1 structure end in \<^verbatim>\<open>IndexError\<close>, raised by
  the assignment \<^verbatim>\<open>flat[idx] = ...\<close>, not in \<^verbatim>\<open>"Size mismatch"\<close>.
\<close>

theorem C4_declared_size_not_checked:
  "parse_nbt_structure
     \<lparr>int_of_str = (\<lambda>s. None), str_of_tag = (\<lambda>t. []),
      inverse_block_map = (\<lambda>name. if name = ''minecraft:stone'' then Some [5, 0] else None),
      alloc_limit = 1000000\<rparr>
     (Some (NCompound
        [(''size'', NList [NInt 1, NInt 1, NInt 3]),
         (''palette'', NList [NCompound [(''Name'', NString ''minecraft:stone'')]]),
         (''blocks'', NList
            [NCompound [(''pos'', NList [NInt 0, NInt 0, NInt 0]), (''state'', NInt 0)],
             NCompound [(''pos'', NList [NInt 1, NInt 0, NInt 0]), (''state'', NInt 0)],
             NCompound [(''pos'', NList [NInt 0, NInt 0, NInt 1]), (''state'', NInt 0)],
             NCompound [(''pos'', NList [NInt 1, NInt 0, NInt 1]), (''state'', NInt 0)]])]))
     = Inr ([(5, 0), (5, 0), (5, 0)], [1, 1, 3]) \<and>
   parse_nbt_structure
     \<lparr>int_of_str = (\<lambda>s. None), str_of_tag = (\<lambda>t. []),
      inverse_block_map = (\<lambda>name. if name = ''minecraft:stone'' then Some [5, 0] else None),
      alloc_limit = 1000000\<rparr>
     (Some (NCompound
        [(''size'', NList [NInt 1, NInt 1, NInt 1]),
         (''palette'', NList [NCompound [(''Name'', NString ''minecraft:stone'')]]),
         (''blocks'', NList
            [NCompound [(''pos'', NList [NInt 0, NInt 0, NInt 0]), (''state'', NInt 0)],
             NCompound [(''pos'', NList [NInt 1, NInt 0, NInt 0]), (''state'', NInt 0)]])]))
     = Inl IndexError"
  by code_simp



lemma load_fields_size_only:
  assumes "map_of kvs ''size'' = Some (NList [a, b, c])"
    and "py_int env a = Inr width" "py_int env b = Inr height" "py_int env c = Inr length'"
    and "map_of kvs ''palette'' = None" "map_of kvs ''blocks'' = None"
  shows "load_fields env (Some (NCompound kvs)) = Inr (NList [], [width, height, length'], NList [])"
  unfolding load_fields_def by (simp add: tag_get_def py_iter_def assms)


text \<open>
  The array \<^verbatim>\<open>flat\<close> is allocated after the \<^verbatim>\<open>try\<close> block: a declared volume that is
  no index-sized integer, or that is larger than the memory at hand, ends the decoder
  with the exception of the allocation.
\<close>

lemma allocation_fails:
  assumes "map_of kvs ''size'' = Some (NList [a, b, c])"
    and "py_int env a = Inr width" "py_int env b = Inr height" "py_int env c = Inr length'"
    and "map_of kvs ''palette'' = None" "map_of kvs ''blocks'' = None"
  shows "sys_maxsize < width * height * length' \<Longrightarrow>
           parse_nbt_structure env (Some (NCompound kvs)) = Inl OverflowError"
    and "0 < width * height * length' \<Longrightarrow> width * height * length' \<le> sys_maxsize \<Longrightarrow>
         alloc_limit env < width * height * length' \<Longrightarrow>
           parse_nbt_structure env (Some (NCompound kvs)) = Inl MemoryError"
proof -
  have m: "0 \<le> sys_maxsize" by (simp add: sys_maxsize_def)
  show "parse_nbt_structure env (Some (NCompound kvs)) = Inl OverflowError"
    if "sys_maxsize < width * height * length'"
    unfolding parse_nbt_structure_def load_fields_size_only [OF assms]
    using that by (simp add: py_iter_def Let_def list_repeat_def)
  show "parse_nbt_structure env (Some (NCompound kvs)) = Inl MemoryError"
    if t: "0 < width * height * length'" "width * height * length' \<le> sys_maxsize"
      "alloc_limit env < width * height * length'"
  proof -
    have "list_repeat env (0 :: int, 0 :: int) (width * height * length') = Inl MemoryError"
      unfolding list_repeat_def using t m by (simp only: if_True if_False) auto
    then show ?thesis
      unfolding parse_nbt_structure_def load_fields_size_only [OF assms]
      by (simp add: py_iter_def Let_def)
  qed
qed





end
